theory Spec2Isabelle
  imports Main "HOL-Library.Multiset" "HOL-Library.AList"
begin

section \<open>Data model of the game server (src/server/index.js)\<close>

text \<open>
  A card is the object \<^verbatim>\<open>{ r, s, id }\<close>. Every card of a game comes from \<^verbatim>\<open>makeDeck\<close>,
  whose \<^verbatim>\<open>ranks\<close> array holds the thirteen strings A, 2, ..., 10, J, Q, K and whose
  \<^verbatim>\<open>suits\<close> array holds four suits, so the rank and the suit are datatypes with one
  constructor per string. Card ids, socket ids and zone names stay strings.
\<close>

datatype rank = RA | R2 | R3 | R4 | R5 | R6 | R7 | R8 | R9 | R10 | RJ | RQ | RK

datatype suit = Spades | Hearts | Diamonds | Clubs

record card =
  card_r :: rank
  card_s :: suit
  card_id :: string

datatype stage = ChooseFaceUp | Ready | StagePlaying

datatype phase = Lobby | Setup | Playing | Ended

record PlayerState =
  ps_id :: string
  ps_name :: string
  hand :: "card list"
  faceUp :: "card list"
  faceDown :: "card list"
  stage :: stage

text \<open>
  \<^verbatim>\<open>playersState\<close> is a JavaScript object keyed by socket id: an association list
  read with \<^const>\<open>map_of\<close> and written with \<^const>\<open>AList.update\<close> (assigning a property
  replaces the value of an existing key in place and appends a new key).
  \<^verbatim>\<open>currentPlayerId\<close> is an option because \<^verbatim>\<open>nextPlayerId\<close> may return null.
\<close>

record GameState =
  deck :: "card list"
  pile :: "card list"
  burned :: "card list"
  currentPlayerId :: "string option"
  playersState :: "(string \<times> PlayerState) list"
  finished :: "string list"
  winnerId :: "string option"
  loserId :: "string option"

text \<open>A member of \<^verbatim>\<open>room.players\<close> is the pair (id, name).\<close>

record Room =
  code :: string
  hostSocketId :: "string option"
  players :: "(string \<times> string) list"
  phase :: phase
  game :: "GameState option"

text \<open>
  The reply passed to the callback \<^verbatim>\<open>cb\<close>: \<^verbatim>\<open>{ ok: false, error }\<close>, or
  \<^verbatim>\<open>{ ok: true, forcedPickup?, burned? }\<close>. \<open>Thrown\<close> stands for an uncaught
  TypeError (reading \<^verbatim>\<open>played[0].r\<close> of an empty array), after which no reply is sent.
\<close>

datatype reply = Failure string | Success (replyForcedPickup: bool) (replyBurned: bool) | Thrown

text \<open>
  The payload of \<^verbatim>\<open>play:cards\<close>. \<^verbatim>\<open>cardIds\<close> is the array after
  \<^verbatim>\<open>Array.isArray(cardIds) ? cardIds : []\<close>; \<^verbatim>\<open>faceDownIndex\<close> is \<open>Some i\<close> when
  \<^verbatim>\<open>Number(faceDownIndex)\<close> is the integer \<open>i\<close> and \<open>None\<close> when
  \<^verbatim>\<open>Number.isInteger\<close> rejects it.
\<close>

record PlayPayload =
  cardIds :: "string list"
  source :: string
  faceDownIndex :: "int option"

section \<open>Cards and pile rules\<close>

fun rankValue :: "rank \<Rightarrow> nat" where
  "rankValue RA = 14"
| "rankValue RK = 13"
| "rankValue RQ = 12"
| "rankValue RJ = 11"
| "rankValue R2 = 2"
| "rankValue R3 = 3"
| "rankValue R4 = 4"
| "rankValue R5 = 5"
| "rankValue R6 = 6"
| "rankValue R7 = 7"
| "rankValue R8 = 8"
| "rankValue R9 = 9"
| "rankValue R10 = 10"

definition isMagic :: "rank \<Rightarrow> bool" where
  "isMagic x = (x = R2 \<or> x = R3 \<or> x = R10)"

text \<open>
  \<^verbatim>\<open>pileEffectiveTopRank\<close> walks the pile from its last index down to 0; \<open>topScan\<close>
  is that loop over the reversed pile.
\<close>

fun topScan :: "card list \<Rightarrow> rank option" where
  "topScan [] = None"
| "topScan (c # cs) = (if card_r c \<noteq> R3 then Some (card_r c) else topScan cs)"

definition pileEffectiveTopRank :: "card list \<Rightarrow> rank option" where
  "pileEffectiveTopRank p = topScan (rev p)"

definition canPlayOnPile :: "rank \<Rightarrow> card list \<Rightarrow> bool" where
  "canPlayOnPile cardRank p =
     (if isMagic cardRank then True
      else case pileEffectiveTopRank p of
        None \<Rightarrow> True
      | Some topRank \<Rightarrow>
          if cardRank = topRank then True
          else if topRank = R7 then rankValue cardRank < 7
          else rankValue cardRank \<ge> rankValue topRank)"

text \<open>
  \<^verbatim>\<open>lastFourNon3Same\<close>: the loop runs from the end while fewer than four ranks are
  collected; \<open>collectNon3\<close> is that loop over the reversed pile with the array
  \<^verbatim>\<open>non3\<close> as accumulator.
\<close>

fun collectNon3 :: "card list \<Rightarrow> rank list \<Rightarrow> rank list" where
  "collectNon3 [] non3 = non3"
| "collectNon3 (c # cs) non3 =
     (if length non3 < 4
      then collectNon3 cs (if card_r c \<noteq> R3 then non3 @ [card_r c] else non3)
      else non3)"

definition lastFourNon3Same :: "card list \<Rightarrow> bool" where
  "lastFourNon3Same p =
     (let non3 = collectNon3 (rev p) []
      in if length non3 < 4 then False else list_all (\<lambda>x. x = hd non3) non3)"

section \<open>The specification's wording of the pile rules\<close>

text \<open>
  The effective top as the specification words it: the rank of the last card of the pile
  whose rank is not 3, none when there is no such card.
\<close>

definition spec_effectiveTop :: "card list \<Rightarrow> rank option" where
  "spec_effectiveTop p =
     (case filter (\<lambda>c. card_r c \<noteq> R3) p of
        [] \<Rightarrow> None
      | c # cs \<Rightarrow> Some (card_r (last (c # cs))))"

text \<open>The legality rule as the specification words it, a disjunction of five cases.\<close>

definition spec_canPlay :: "rank \<Rightarrow> card list \<Rightarrow> bool" where
  "spec_canPlay x p =
     (x \<in> {R2, R3, R10}
      \<or> spec_effectiveTop p = None
      \<or> Some x = spec_effectiveTop p
      \<or> (spec_effectiveTop p = Some R7 \<and> rankValue x < rankValue R7)
      \<or> (\<exists>t. spec_effectiveTop p = Some t \<and> t \<noteq> R7 \<and> rankValue x \<ge> rankValue t))"

text \<open>
  Four of a kind as the specification words it: the cards of rank other than 3 number at
  least four, and the last four of them share one rank.
\<close>

definition spec_fourOfAKind :: "card list \<Rightarrow> bool" where
  "spec_fourOfAKind p =
     (let xs = map card_r (filter (\<lambda>c. card_r c \<noteq> R3) p)
      in length xs \<ge> 4 \<and> (\<exists>x. set (drop (length xs - 4) xs) = {x}))"

section \<open>Turn order and zones\<close>

text \<open>
  \<^verbatim>\<open>playerZoneToUse(room, pid)\<close> reads only \<^verbatim>\<open>room.game\<close>, which its callers have
  checked to be present, so the model takes the game state.
\<close>

definition playerZoneToUse :: "GameState \<Rightarrow> string \<Rightarrow> string" where
  "playerZoneToUse g pid =
     (case map_of (playersState g) pid of
        None \<Rightarrow> ''hand''
      | Some ps \<Rightarrow>
          if deck g \<noteq> [] then ''hand''
          else if hand ps \<noteq> [] then ''hand''
          else if faceUp ps \<noteq> [] then ''faceUp''
          else ''faceDown'')"

definition isPlayerOut :: "PlayerState \<Rightarrow> bool" where
  "isPlayerOut ps = (hand ps = [] \<and> faceUp ps = [] \<and> faceDown ps = [])"

text \<open>\<^verbatim>\<open>Array.prototype.indexOf\<close>: the first index holding the value, -1 when absent.\<close>

fun indexOf :: "'a list \<Rightarrow> 'a \<Rightarrow> int" where
  "indexOf [] x = - 1"
| "indexOf (y # ys) x =
     (if y = x then 0 else (let i = indexOf ys x in if i = - 1 then - 1 else i + 1))"

text \<open>The loop \<^verbatim>\<open>for (i = 0; i < steps; i++) idx = (idx + 1) % active.length\<close>.\<close>

primrec stepIdx :: "nat \<Rightarrow> nat \<Rightarrow> nat \<Rightarrow> nat" where
  "stepIdx 0 n idx = idx"
| "stepIdx (Suc k) n idx = stepIdx k n ((idx + 1) mod n)"

definition activeIds :: "Room \<Rightarrow> string list" where
  "activeIds room =
     (let fin = (case game room of None \<Rightarrow> [] | Some g \<Rightarrow> finished g)
      in filter (\<lambda>i. i \<notin> set fin) (map fst (players room)))"

definition nextPlayerId :: "Room \<Rightarrow> string \<Rightarrow> nat \<Rightarrow> string option" where
  "nextPlayerId room fromId steps =
     (if map fst (players room) = [] then None
      else let active = activeIds room
           in if active = [] then None
              else let i = indexOf active fromId;
                       idx = (if i = - 1 then 0 else nat i)
                   in Some (active ! stepIdx steps (length active) idx))"

text \<open>
  The loop of \<^verbatim>\<open>ensureFinishAndMaybeEnd\<close> over \<^verbatim>\<open>room.players\<close>, pushing newly
  finished ids onto \<^verbatim>\<open>g.finished\<close>.
\<close>

fun addFinished ::
  "(string \<times> string) list \<Rightarrow> (string \<times> PlayerState) list \<Rightarrow> string list \<Rightarrow> string list" where
  "addFinished [] pst fin = fin"
| "addFinished (p # ps) pst fin =
     (case map_of pst (fst p) of
        None \<Rightarrow> addFinished ps pst fin
      | Some st \<Rightarrow>
          if isPlayerOut st \<and> fst p \<notin> set fin
          then addFinished ps pst (fin @ [fst p])
          else addFinished ps pst fin)"

definition ensureFinishAndMaybeEnd :: "Room \<Rightarrow> Room" where
  "ensureFinishAndMaybeEnd room =
     (case game room of
        None \<Rightarrow> room
      | Some g \<Rightarrow>
          let fin = addFinished (players room) (playersState g) (finished g);
              g1 = g\<lparr>finished := fin\<rparr>;
              allIds = map fst (players room);
              active = filter (\<lambda>i. i \<notin> set fin) allIds;
              curFinished = (case currentPlayerId g1 of None \<Rightarrow> False | Some c \<Rightarrow> c \<in> set fin)
          in if length active = 1 \<and> length allIds \<ge> 2
             then let g2 = g1\<lparr>winnerId := (case fin of [] \<Rightarrow> None | w # _ \<Rightarrow> Some w),
                               loserId := (case active of [] \<Rightarrow> None | l # _ \<Rightarrow> Some l)\<rparr>;
                      g3 = (if curFinished then g2\<lparr>currentPlayerId := loserId g2\<rparr> else g2)
                  in room\<lparr>phase := Ended, game := Some g3\<rparr>
             else (case currentPlayerId g1 of
                     None \<Rightarrow> room\<lparr>game := Some g1\<rparr>
                   | Some c \<Rightarrow>
                       if c \<in> set fin
                       then room\<lparr>game := Some (g1\<lparr>currentPlayerId :=
                                     nextPlayerId (room\<lparr>game := Some g1\<rparr>) c 1\<rparr>)\<rparr>
                       else room\<lparr>game := Some g1\<rparr>))"

text \<open>
  \<^verbatim>\<open>drawUpToThree\<close>: \<open>drawLoop\<close> is the while loop moving the first card of the deck to
  the end of the hand; the player's entry of \<^verbatim>\<open>playersState\<close> is written back.
\<close>

fun drawLoop :: "card list \<Rightarrow> card list \<Rightarrow> card list \<times> card list" where
  "drawLoop h [] = (h, [])"
| "drawLoop h (c # d) = (if length h < 3 then drawLoop (h @ [c]) d else (h, c # d))"

definition drawUpToThree :: "GameState \<Rightarrow> string \<Rightarrow> GameState" where
  "drawUpToThree g pid =
     (case map_of (playersState g) pid of
        None \<Rightarrow> g
      | Some ps \<Rightarrow>
          if deck g = [] then g
          else (case drawLoop (hand ps) (deck g) of
                  (h, d) \<Rightarrow> g\<lparr>deck := d,
                                playersState := AList.update pid (ps\<lparr>hand := h\<rparr>) (playersState g)\<rparr>))"

text \<open>\<^verbatim>\<open>removeCardsByIds\<close> returns the pair (removed, kept).\<close>

definition removeCardsByIds :: "card list \<Rightarrow> string list \<Rightarrow> card list \<times> card list" where
  "removeCardsByIds arr ids = partition (\<lambda>c. card_id c \<in> set ids) arr"

section \<open>The handlers\<close>

text \<open>
  \<^verbatim>\<open>game:start\<close>. The deck \<^verbatim>\<open>makeDeck()\<close> returns is random, so it is a parameter.
  \<open>deal\<close> is the loop over \<^verbatim>\<open>room.players\<close>; \<^verbatim>\<open>deck.splice(0, n)\<close> takes the first
  \<open>n\<close> cards, fewer when the deck is shorter.
\<close>

fun deal ::
  "(string \<times> string) list \<Rightarrow> card list \<Rightarrow> (string \<times> PlayerState) list
   \<Rightarrow> card list \<times> (string \<times> PlayerState) list" where
  "deal [] d pst = (d, pst)"
| "deal (p # ps) d pst =
     deal ps (drop 6 (drop 3 d))
       (AList.update (fst p)
          \<lparr>ps_id = fst p, ps_name = snd p, hand = take 6 (drop 3 d), faceUp = [],
           faceDown = take 3 d, stage = ChooseFaceUp\<rparr> pst)"

definition gameStart :: "Room \<Rightarrow> string \<Rightarrow> card list \<Rightarrow> reply \<times> Room" where
  "gameStart room sid shuffled =
     (if hostSocketId room \<noteq> Some sid then (Failure ''Only host can start'', room)
      else if length (players room) < 2 then (Failure ''Need at least 2 players'', room)
      else if phase room \<noteq> Lobby then (Failure ''Game already started'', room)
      else case deal (players room) shuffled [] of
             (d, pst) \<Rightarrow>
               (Success False False,
                room\<lparr>phase := Setup,
                     game := Some \<lparr>deck = d, pile = [], burned = [],
                                   currentPlayerId = (case players room of [] \<Rightarrow> None | p # _ \<Rightarrow> Some (fst p)),
                                   playersState = pst, finished = [],
                                   winnerId = None, loserId = None\<rparr>\<rparr>))"

text \<open>\<^verbatim>\<open>setup:setFaceUp\<close>; \<open>ids\<close> is \<^verbatim>\<open>chosenCardIds\<close> when it is an array, else the empty list.\<close>

definition setFaceUp :: "Room \<Rightarrow> string \<Rightarrow> string list \<Rightarrow> reply \<times> Room" where
  "setFaceUp room sid ids =
     (case game room of
        None \<Rightarrow> (Failure ''Game not started'', room)
      | Some g \<Rightarrow>
          (case map_of (playersState g) sid of
             None \<Rightarrow> (Failure ''You are not in this game'', room)
           | Some you \<Rightarrow>
              if stage you \<noteq> ChooseFaceUp then (Failure ''Already locked in'', room)
              else if length ids \<noteq> 3 then (Failure ''Pick exactly 3 cards'', room)
              else if \<not> list_all (\<lambda>i. i \<in> set (map card_id (hand you))) ids
                then (Failure ''Invalid selection'', room)
              else
                let chosen = filter (\<lambda>c. card_id c \<in> set ids) (hand you);
                    remaining = filter (\<lambda>c. card_id c \<notin> set ids) (hand you);
                    you1 = you\<lparr>faceUp := chosen, hand := remaining, stage := Ready\<rparr>;
                    pst1 = AList.update sid you1 (playersState g);
                    allReady = list_all (\<lambda>kp. stage (snd kp) = Ready) pst1
                in if allReady
                   then (Success False False,
                         room\<lparr>phase := Playing,
                              game := Some (g\<lparr>playersState :=
                                map (\<lambda>kp. (fst kp, (snd kp)\<lparr>stage := StagePlaying\<rparr>)) pst1\<rparr>)\<rparr>)
                   else (Success False False, room\<lparr>game := Some (g\<lparr>playersState := pst1\<rparr>)\<rparr>)))"

text \<open>
  \<^verbatim>\<open>play:cards\<close>, in three parts. \<open>selectCards\<close> is the block "Select cards from correct
  source": it returns the error message, or the played cards and the player's state with
  them removed. \<^verbatim>\<open>ps.faceDown[idx]\<close> is undefined for a negative index and for an
  index past the end.
\<close>

definition selectCards :: "PlayerState \<Rightarrow> PlayPayload \<Rightarrow> string + (card list \<times> PlayerState)" where
  "selectCards ps req =
     (if source req = ''faceDown'' then
        (case faceDownIndex req of
           None \<Rightarrow> Inl ''Pick a face-down card''
         | Some idx \<Rightarrow>
             if idx < 0 \<or> idx \<ge> int (length (faceDown ps)) then Inl ''No card there''
             else Inr ([faceDown ps ! nat idx],
                       ps\<lparr>faceDown := take (nat idx) (faceDown ps) @ drop (Suc (nat idx)) (faceDown ps)\<rparr>))
      else
        let ids = cardIds req in
        if length ids < 1 then Inl ''Select a card''
        else
          let zoneArr = (if source req = ''hand'' then hand ps else faceUp ps) in
          if \<not> list_all (\<lambda>i. i \<in> set (map card_id zoneArr)) ids then Inl ''Invalid selection''
          else
            let ranks = map (\<lambda>i. map_option card_r (find (\<lambda>c. card_id c = i) zoneArr)) ids in
            if \<not> list_all (\<lambda>x. x = hd ranks) ranks
            then Inl ''You can only play multiple cards of the same rank''
            else (case removeCardsByIds zoneArr ids of
                    (removed, kept) \<Rightarrow>
                      Inr (removed, if source req = ''hand'' then ps\<lparr>hand := kept\<rparr>
                                    else ps\<lparr>faceUp := kept\<rparr>)))"

text \<open>
  \<open>resolvePlay\<close> is the rest of the handler, from \<^verbatim>\<open>const playRank = played[0].r\<close> on:
  \<open>g\<close> is the game before the request, \<open>ps1\<close> the player's state after the
  selection, \<open>src\<close> the payload's source.
\<close>

definition resolvePlay ::
  "Room \<Rightarrow> GameState \<Rightarrow> string \<Rightarrow> string \<Rightarrow> card list \<Rightarrow> PlayerState \<Rightarrow> reply \<times> Room" where
  "resolvePlay room g sid src played ps1 =
     (case played of
        [] \<Rightarrow> (Thrown, room\<lparr>game := Some (g\<lparr>playersState := AList.update sid ps1 (playersState g)\<rparr>)\<rparr>)
      | c0 # _ \<Rightarrow>
          let playRank = card_r c0 in
          if \<not> canPlayOnPile playRank (pile g) then
            let ps2 = ps1\<lparr>hand := hand ps1 @ played @ pile g\<rparr>;
                g1 = g\<lparr>playersState := AList.update sid ps2 (playersState g), pile := []\<rparr>;
                g2 = g1\<lparr>currentPlayerId := nextPlayerId (room\<lparr>game := Some g1\<rparr>) sid 1\<rparr>
            in (Success True False, ensureFinishAndMaybeEnd (room\<lparr>game := Some g2\<rparr>))
          else
            let g1 = g\<lparr>playersState := AList.update sid ps1 (playersState g),
                       pile := pile g @ played\<rparr>;
                num8 = length (filter (\<lambda>c. card_r c = R8) played);
                isTenBurn = (playRank = R10);
                isFourBurn = lastFourNon3Same (pile g1)
            in if isTenBurn \<or> isFourBurn then
                 let g2 = g1\<lparr>burned := burned g1 @ pile g1, pile := []\<rparr>;
                     g3 = (if src = ''hand'' then drawUpToThree g2 sid else g2)
                 in (Success False True, ensureFinishAndMaybeEnd (room\<lparr>game := Some g3\<rparr>))
               else
                 let g2 = (if src = ''hand'' then drawUpToThree g1 sid else g1);
                     g3 = g2\<lparr>currentPlayerId :=
                              nextPlayerId (room\<lparr>game := Some g2\<rparr>) sid (1 + num8)\<rparr>
                 in (Success False False, ensureFinishAndMaybeEnd (room\<lparr>game := Some g3\<rparr>)))"

definition playCards :: "Room \<Rightarrow> string \<Rightarrow> PlayPayload \<Rightarrow> reply \<times> Room" where
  "playCards room sid req =
     (case game room of
        None \<Rightarrow> (Failure ''Game not started'', room)
      | Some g \<Rightarrow>
          if phase room \<noteq> Playing then (Failure ''Not in playing phase'', room)
          else if currentPlayerId g \<noteq> Some sid then (Failure ''Not your turn'', room)
          else (case map_of (playersState g) sid of
                  None \<Rightarrow> (Failure ''You are not in this game'', room)
                | Some ps \<Rightarrow>
                    let mustZone = playerZoneToUse g sid in
                    if source req \<noteq> mustZone
                    then (Failure (''You must play from '' @ mustZone), room)
                    else (case selectCards ps req of
                            Inl e \<Rightarrow> (Failure e, room)
                          | Inr (played, ps1) \<Rightarrow>
                              resolvePlay room g sid (source req) played ps1)))"

text \<open>\<^verbatim>\<open>play:pickup\<close>.\<close>

definition playPickup :: "Room \<Rightarrow> string \<Rightarrow> reply \<times> Room" where
  "playPickup room sid =
     (case game room of
        None \<Rightarrow> (Failure ''Game not started'', room)
      | Some g \<Rightarrow>
          if phase room \<noteq> Playing then (Failure ''Not in playing phase'', room)
          else if currentPlayerId g \<noteq> Some sid then (Failure ''Not your turn'', room)
          else (case map_of (playersState g) sid of
                  None \<Rightarrow> (Failure ''You are not in this game'', room)
                | Some ps \<Rightarrow>
                   let g1 = g\<lparr>playersState :=
                              AList.update sid (ps\<lparr>hand := hand ps @ pile g\<rparr>) (playersState g),
                            pile := []\<rparr>;
                       g2 = g1\<lparr>currentPlayerId := nextPlayerId (room\<lparr>game := Some g1\<rparr>) sid 1\<rparr>
                   in (Success False False, ensureFinishAndMaybeEnd (room\<lparr>game := Some g2\<rparr>))))"

section \<open>Derived notions used by the statements\<close>

text \<open>The cards a player holds and the cards of a whole game, as multisets.\<close>

definition psCards :: "PlayerState \<Rightarrow> card multiset" where
  "psCards ps = mset (hand ps) + mset (faceUp ps) + mset (faceDown ps)"

definition allCards :: "GameState \<Rightarrow> card multiset" where
  "allCards g =
     mset (deck g) + mset (pile g) + mset (burned g)
     + sum_list (map (\<lambda>kp. psCards (snd kp)) (playersState g))"

definition roomCardIds :: "Room \<Rightarrow> string multiset" where
  "roomCardIds room =
     (case game room of None \<Rightarrow> {#} | Some g \<Rightarrow> image_mset card_id (allCards g))"

text \<open>
  The one-step successor in turn order as the specification words it: the player after
  \<open>x\<close> in the list of active players, wrapping from the last to the first.
\<close>

definition spec_nextActive :: "string list \<Rightarrow> string \<Rightarrow> string" where
  "spec_nextActive active x = active ! ((nat (indexOf active x) + 1) mod length active)"

text \<open>
  A \<^verbatim>\<open>play:cards\<close> request passes every check of the handler: the game exists, the
  phase is playing, the requester holds the turn and has a state, the source is the zone
  \<open>playerZoneToUse\<close> demands, and the selection succeeds with the cards \<open>played\<close>,
  leaving the player's state \<open>ps1\<close>.
\<close>

definition accepted ::
  "Room \<Rightarrow> string \<Rightarrow> PlayPayload \<Rightarrow> GameState \<Rightarrow> PlayerState \<Rightarrow> card list \<Rightarrow> PlayerState \<Rightarrow> bool" where
  "accepted room sid req g ps played ps1 =
     (game room = Some g \<and> phase room = Playing \<and> currentPlayerId g = Some sid
      \<and> map_of (playersState g) sid = Some ps
      \<and> source req = playerZoneToUse g sid
      \<and> selectCards ps req = Inr (played, ps1))"

text \<open>
  Every member of the room whose three zones are empty is already recorded in
  \<^verbatim>\<open>finished\<close>: the state \<open>ensureFinishAndMaybeEnd\<close> leaves behind.
\<close>

definition finishRecorded :: "Room \<Rightarrow> bool" where
  "finishRecorded room =
     (case game room of
        None \<Rightarrow> True
      | Some g \<Rightarrow>
          list_all (\<lambda>p. case map_of (playersState g) (fst p) of
                           None \<Rightarrow> True
                         | Some st \<Rightarrow> isPlayerOut st \<longrightarrow> fst p \<in> set (finished g))
                   (players room))"

text \<open>During setup a player who has not locked in has no face-up card yet.\<close>

definition faceUpUnset :: "Room \<Rightarrow> bool" where
  "faceUpUnset room =
     (case game room of
        None \<Rightarrow> True
      | Some g \<Rightarrow>
          list_all (\<lambda>kp. stage (snd kp) = ChooseFaceUp \<longrightarrow> faceUp (snd kp) = [])
                   (playersState g))"

text \<open>
  The card ids of the room are those of the deck \<open>d\<close> that was dealt, and nobody who
  still has to choose holds a face-up card (which \<^verbatim>\<open>setup:setFaceUp\<close> would overwrite).
\<close>

definition conserved :: "card list \<Rightarrow> Room \<Rightarrow> bool" where
  "conserved d room =
     (faceUpUnset room \<and> roomCardIds room = image_mset card_id (mset d))"

section \<open>Example states\<close>

text \<open>
  Concrete cards, players and rooms on which the handlers are evaluated: a room in the
  playing phase whose members are the players of \<open>pst\<close> in that order, with the turn at
  player A and nobody finished.
\<close>

definition exCard :: "rank \<Rightarrow> suit \<Rightarrow> string \<Rightarrow> card" where
  "exCard x y i = \<lparr>card_r = x, card_s = y, card_id = i\<rparr>"

definition exState :: "string \<Rightarrow> card list \<Rightarrow> card list \<Rightarrow> card list \<Rightarrow> PlayerState" where
  "exState n h u d =
     \<lparr>ps_id = n, ps_name = n, hand = h, faceUp = u, faceDown = d, stage = StagePlaying\<rparr>"

definition exGame :: "(string \<times> PlayerState) list \<Rightarrow> card list \<Rightarrow> card list \<Rightarrow> GameState" where
  "exGame pst dk p =
     \<lparr>deck = dk, pile = p, burned = [], currentPlayerId = Some ''A'', playersState = pst,
      finished = [], winnerId = None, loserId = None\<rparr>"

definition exRoom :: "(string \<times> PlayerState) list \<Rightarrow> card list \<Rightarrow> card list \<Rightarrow> Room" where
  "exRoom pst dk p =
     \<lparr>code = ''ROOM'', hostSocketId = Some ''A'',
      players = map (\<lambda>kp. (fst kp, ps_name (snd kp))) pst, phase = Playing,
      game = Some (exGame pst dk p)\<rparr>"

definition exPlay :: "string list \<Rightarrow> PlayPayload" where
  "exPlay ids = \<lparr>cardIds = ids, source = ''hand'', faceDownIndex = None\<rparr>"

text \<open>
  A room of two players during setup: A holds six cards in hand and has not locked in;
  B's state is the parameter.
\<close>

definition exChoosingA :: PlayerState where
  "exChoosingA =
     \<lparr>ps_id = ''A'', ps_name = ''A'',
      hand = [exCard R4 Spades ''4s'', exCard R9 Clubs ''9c'', exCard RK Hearts ''Kh'',
              exCard R2 Diamonds ''2d'', exCard R7 Spades ''7s'', exCard RJ Clubs ''Jc''],
      faceUp = [],
      faceDown = [exCard R5 Clubs ''5c'', exCard RA Spades ''As'', exCard R8 Diamonds ''8d''],
      stage = ChooseFaceUp\<rparr>"

definition exChoosingB :: PlayerState where
  "exChoosingB =
     \<lparr>ps_id = ''B'', ps_name = ''B'',
      hand = [exCard R6 Hearts ''6h'', exCard RQ Spades ''Qs'', exCard R3 Clubs ''3c'',
              exCard R10 Hearts ''10h'', exCard R4 Diamonds ''4d'', exCard RK Clubs ''Kc''],
      faceUp = [],
      faceDown = [exCard R9 Hearts ''9h'', exCard R2 Spades ''2s'', exCard RJ Diamonds ''Jd''],
      stage = ChooseFaceUp\<rparr>"

definition exReadyB :: PlayerState where
  "exReadyB =
     \<lparr>ps_id = ''B'', ps_name = ''B'',
      hand = [exCard R6 Hearts ''6h'', exCard RQ Spades ''Qs'', exCard R3 Clubs ''3c''],
      faceUp = [exCard R10 Hearts ''10h'', exCard R4 Diamonds ''4d'', exCard RK Clubs ''Kc''],
      faceDown = [exCard R9 Hearts ''9h'', exCard R2 Spades ''2s'', exCard RJ Diamonds ''Jd''],
      stage = Ready\<rparr>"

definition exSetupRoom :: "PlayerState \<Rightarrow> Room" where
  "exSetupRoom b =
     \<lparr>code = ''ROOM'', hostSocketId = Some ''A'',
      players = [(''A'', ''A''), (''B'', ''B'')], phase = Setup,
      game = Some \<lparr>deck = [exCard R5 Hearts ''5h'', exCard R7 Clubs ''7c''], pile = [],
                    burned = [], currentPlayerId = Some ''A'',
                    playersState = [(''A'', exChoosingA), (''B'', b)],
                    finished = [], winnerId = None, loserId = None\<rparr>\<rparr>"

text \<open>A lobby of two players, hosted by A, and a shuffled deck of twenty cards.\<close>

definition exLobby :: Room where
  "exLobby =
     \<lparr>code = ''ROOM'', hostSocketId = Some ''A'',
      players = [(''A'', ''Ann''), (''B'', ''Bob'')], phase = Lobby, game = None\<rparr>"

definition exDeck :: "card list" where
  "exDeck =
     [exCard R5 Clubs ''5c'', exCard RA Spades ''As'', exCard R8 Diamonds ''8d'',
      exCard R4 Spades ''4s'', exCard R9 Clubs ''9c'', exCard RK Hearts ''Kh'',
      exCard R2 Diamonds ''2d'', exCard R7 Spades ''7s'', exCard RJ Clubs ''Jc'',
      exCard R9 Hearts ''9h'', exCard R2 Spades ''2s'', exCard RJ Diamonds ''Jd'',
      exCard R6 Hearts ''6h'', exCard RQ Spades ''Qs'', exCard R3 Clubs ''3c'',
      exCard R10 Hearts ''10h'', exCard R4 Diamonds ''4d'', exCard RK Clubs ''Kc'',
      exCard R5 Hearts ''5h'', exCard R7 Clubs ''7c'']"

section \<open>Pile rules: refinement lemmas\<close>

lemma topScan_filter:
  "topScan cs = (case filter (\<lambda>c. card_r c \<noteq> R3) cs of [] \<Rightarrow> None | c # _ \<Rightarrow> Some (card_r c))"
  by (induction cs) auto

lemma spec_effectiveTop_alt:
  "spec_effectiveTop p =
     (if filter (\<lambda>c. card_r c \<noteq> R3) p = [] then None
      else Some (card_r (last (filter (\<lambda>c. card_r c \<noteq> R3) p))))"
  by (simp add: spec_effectiveTop_def split: list.splits)

lemma spec_effectiveTop_snoc:
  "spec_effectiveTop (p @ [c]) = (if card_r c \<noteq> R3 then Some (card_r c) else spec_effectiveTop p)"
  by (simp add: spec_effectiveTop_alt)

lemma effectiveTop_refines: "pileEffectiveTopRank p = spec_effectiveTop p"
proof (induction p rule: rev_induct)
  case Nil
  show ?case by (simp add: pileEffectiveTopRank_def spec_effectiveTop_def)
next
  case (snoc c p)
  then show ?case
    unfolding spec_effectiveTop_snoc by (simp add: pileEffectiveTopRank_def)
qed

text \<open>
  C1. For every rank and every pile, \<open>canPlayOnPile\<close> holds exactly when the rank is
  magic (2, 3 or 10), or the effective top is none, or the rank equals the effective top,
  or the effective top is 7 and the rank's value is below that of 7, or the effective top
  is neither none nor 7 and the rank's value is at least that of the effective top; the
  effective top is the rank of the last card whose rank is not 3, and \<open>rankValue\<close> maps
  A, K, Q, J to 14, 13, 12, 11 and the numerals to their face value.
\<close>

theorem canPlay_iff_spec:
  "canPlayOnPile x p = spec_canPlay x p
   \<and> pileEffectiveTopRank p = spec_effectiveTop p
   \<and> map rankValue [RA, RK, RQ, RJ, R2, R3, R4, R5, R6, R7, R8, R9, R10]
       = [14, 13, 12, 11, 2, 3, 4, 5, 6, 7, 8, 9, 10]"
proof -
  have "canPlayOnPile x p = spec_canPlay x p"
    unfolding canPlayOnPile_def spec_canPlay_def isMagic_def effectiveTop_refines
    by (cases "spec_effectiveTop p") auto
  then show ?thesis by (simp add: effectiveTop_refines)
qed

theorem canPlay_iff_spec_witness:
  "spec_canPlay R6 [\<lparr>card_r = R7, card_s = Hearts, card_id = ''7h''\<rparr>,
                    \<lparr>card_r = R3, card_s = Clubs, card_id = ''3c''\<rparr>]
   \<and> \<not> spec_canPlay R8 [\<lparr>card_r = R7, card_s = Hearts, card_id = ''7h''\<rparr>,
                        \<lparr>card_r = R3, card_s = Clubs, card_id = ''3c''\<rparr>]
   \<and> spec_effectiveTop [\<lparr>card_r = R7, card_s = Hearts, card_id = ''7h''\<rparr>,
                         \<lparr>card_r = R3, card_s = Clubs, card_id = ''3c''\<rparr>] = Some R7"
proof -
  let ?p = "[\<lparr>card_r = R7, card_s = Hearts, card_id = ''7h''\<rparr>,
             \<lparr>card_r = R3, card_s = Clubs, card_id = ''3c''\<rparr>]"
  have top: "pileEffectiveTopRank ?p = Some R7"
    by (simp add: pileEffectiveTopRank_def)
  have six: "canPlayOnPile R6 ?p" and eight: "\<not> canPlayOnPile R8 ?p"
    by (simp_all add: canPlayOnPile_def isMagic_def top)
  from six have "spec_canPlay R6 ?p" using canPlay_iff_spec [of R6 ?p] by blast
  moreover from eight have "\<not> spec_canPlay R8 ?p" using canPlay_iff_spec [of R8 ?p] by blast
  moreover from top have "spec_effectiveTop ?p = Some R7"
    using canPlay_iff_spec [of R6 ?p] by simp
  ultimately show ?thesis by blast
qed

section \<open>Burn detection\<close>

lemma collectNon3_take:
  "length acc \<le> 4 \<Longrightarrow>
   collectNon3 cs acc = acc @ take (4 - length acc) (map card_r (filter (\<lambda>c. card_r c \<noteq> R3) cs))"
proof (induction cs arbitrary: acc)
  case Nil
  then show ?case by simp
next
  case (Cons c cs)
  show ?case
  proof (cases "length acc < 4")
    case True
    then obtain k where k: "4 - length acc = Suc k" by (cases "4 - length acc") auto
    then have k': "4 - length (acc @ [card_r c]) = k" by simp
    from True have le: "length (acc @ [card_r c]) \<le> 4" by simp
    show ?thesis
      using True Cons.IH [OF le] Cons.IH [OF Cons.prems] k k' by simp
  next
    case False
    with Cons.prems have "length acc = 4" by simp
    then show ?thesis by simp
  qed
qed

lemma same_as_hd_iff:
  "xs \<noteq> [] \<Longrightarrow> list_all (\<lambda>x. x = hd xs) xs = (\<exists>x. set xs = {x})"
proof
  assume ne: "xs \<noteq> []" and all: "list_all (\<lambda>x. x = hd xs) xs"
  then have "set xs = {hd xs}" by (cases xs) (auto simp: list_all_iff)
  then show "\<exists>x. set xs = {x}" by blast
next
  assume ne: "xs \<noteq> []" and ex: "\<exists>x. set xs = {x}"
  then obtain x where x: "set xs = {x}" by blast
  with ne have "hd xs = x" by (cases xs) auto
  with x show "list_all (\<lambda>x. x = hd xs) xs" by (auto simp: list_all_iff)
qed

lemma lastFour_refines: "lastFourNon3Same p = spec_fourOfAKind p"
proof -
  define ys where "ys = map card_r (filter (\<lambda>c. card_r c \<noteq> R3) p)"
  define zs where "zs = drop (length ys - 4) ys"
  have col: "collectNon3 (rev p) [] = rev zs"
    by (simp add: collectNon3_take rev_filter [symmetric] rev_map [symmetric] take_rev ys_def zs_def)
  have len: "length (rev zs) = min 4 (length ys)" by (simp add: zs_def)
  show ?thesis
  proof (cases "length ys \<ge> 4")
    case True
    then have ne: "rev zs \<noteq> []" using len by auto
    have "lastFourNon3Same p = list_all (\<lambda>x. x = hd (rev zs)) (rev zs)"
      using True len by (simp add: lastFourNon3Same_def col)
    also have "\<dots> = (\<exists>x. set (rev zs) = {x})" by (rule same_as_hd_iff [OF ne])
    finally show ?thesis using True
      by (simp add: spec_fourOfAKind_def ys_def [symmetric] zs_def [symmetric])
  next
    case False
    then show ?thesis using len
      by (simp add: lastFourNon3Same_def col spec_fourOfAKind_def ys_def [symmetric])
  qed
qed

section \<open>The play handler: selection and dispatch\<close>

lemma selectCards_nonempty:
  assumes "selectCards ps req = Inr (played, ps1)"
  shows "played \<noteq> []"
proof (cases "source req = ''faceDown''")
  case True
  with assms show ?thesis
    by (auto simp: selectCards_def split: option.splits if_splits)
next
  case False
  let ?zone = "if source req = ''hand'' then hand ps else faceUp ps"
  from assms False have ne: "cardIds req \<noteq> []"
    and all: "list_all (\<lambda>i. i \<in> set (map card_id ?zone)) (cardIds req)"
    and pl: "played = filter (\<lambda>c. card_id c \<in> set (cardIds req)) ?zone"
    by (auto simp: selectCards_def Let_def removeCardsByIds_def split: if_splits)
  from ne obtain i where i: "i \<in> set (cardIds req)" by (cases "cardIds req") auto
  with all have "i \<in> card_id ` set ?zone" by (auto simp: list_all_iff)
  then obtain c where "c \<in> set ?zone" "card_id c = i" by auto
  with i pl have "c \<in> set played" by simp
  then show ?thesis by auto
qed

lemma playCards_accepted:
  "accepted room sid req g ps played ps1 \<Longrightarrow>
   playCards room sid req = resolvePlay room g sid (source req) played ps1"
  by (simp add: accepted_def playCards_def)

lemma resolvePlay_reply:
  assumes "played \<noteq> []"
  shows "fst (resolvePlay room g sid src played ps1) =
           (if \<not> canPlayOnPile (card_r (hd played)) (pile g) then Success True False
            else Success False (card_r (hd played) = R10 \<or> lastFourNon3Same (pile g @ played)))"
  using assms by (cases played) (simp_all add: resolvePlay_def Let_def)

lemmas ex_defs = exCard_def exState_def exGame_def exRoom_def exPlay_def

lemmas handler_defs =
  accepted_def playerZoneToUse_def selectCards_def removeCardsByIds_def

lemmas rule_defs = canPlayOnPile_def isMagic_def pileEffectiveTopRank_def

section \<open>Failure replies\<close>

lemma resolvePlay_not_failure: "fst (resolvePlay room g sid src played ps1) \<noteq> Failure e"
  by (cases played) (simp_all add: resolvePlay_def Let_def)

lemma playCards_failure_unchanged:
  assumes "fst (playCards room sid req) = Failure e"
  shows "snd (playCards room sid req) = room"
proof (cases "\<exists>g ps played ps1. accepted room sid req g ps played ps1")
  case True
  then obtain g ps played ps1 where "accepted room sid req g ps played ps1" by blast
  then have "playCards room sid req = resolvePlay room g sid (source req) played ps1"
    by (rule playCards_accepted)
  with assms show ?thesis by (simp add: resolvePlay_not_failure)
next
  case False
  then show ?thesis
    by (auto simp: playCards_def accepted_def Let_def split: option.splits sum.splits)
qed

lemma playCards_never_thrown: "fst (playCards room sid req) \<noteq> Thrown"
proof (cases "\<exists>g ps played ps1. accepted room sid req g ps played ps1")
  case True
  then obtain g ps played ps1 where acc: "accepted room sid req g ps played ps1" by blast
  then have "played \<noteq> []" by (auto simp: accepted_def dest: selectCards_nonempty)
  then show ?thesis by (simp add: playCards_accepted [OF acc] resolvePlay_reply)
next
  case False
  then show ?thesis
    by (auto simp: playCards_def accepted_def Let_def split: option.splits sum.splits)
qed

lemma setFaceUp_failure_unchanged:
  assumes "fst (setFaceUp room sid ids) = Failure e"
  shows "snd (setFaceUp room sid ids) = room"
  using assms by (auto simp: setFaceUp_def Let_def split: option.splits if_splits)

text \<open>
  C9. Error atomicity: whenever \<^verbatim>\<open>play:cards\<close> or \<^verbatim>\<open>setup:setFaceUp\<close> answers with a
  failure (\<^verbatim>\<open>ok: false\<close>), the whole room (phase, deck, pile, burned pile, every
  player's zones and stage, turn, finished list, winner and loser) is exactly the room
  before the request.
\<close>

theorem failure_leaves_room_unchanged:
  "(fst (playCards room sid req) = Failure e \<longrightarrow> snd (playCards room sid req) = room)
   \<and> (fst (setFaceUp room sid ids) = Failure e' \<longrightarrow> snd (setFaceUp room sid ids) = room)"
  using playCards_failure_unchanged setFaceUp_failure_unchanged by blast

theorem failure_leaves_room_unchanged_witness:
  "fst (playCards (exRoom [(''A'', exState ''A'' [exCard R7 Clubs ''7c''] [] []),
                           (''B'', exState ''B'' [exCard R5 Spades ''5s''] [] [])] [] [])
          ''B'' (exPlay [''5s''])) = Failure ''Not your turn''
   \<and> snd (playCards (exRoom [(''A'', exState ''A'' [exCard R7 Clubs ''7c''] [] []),
                             (''B'', exState ''B'' [exCard R5 Spades ''5s''] [] [])] [] [])
            ''B'' (exPlay [''5s'']))
       = exRoom [(''A'', exState ''A'' [exCard R7 Clubs ''7c''] [] []),
                 (''B'', exState ''B'' [exCard R5 Spades ''5s''] [] [])] [] []
   \<and> fst (setFaceUp (exRoom [(''A'', exState ''A'' [exCard R7 Clubs ''7c''] [] []),
                             (''B'', exState ''B'' [exCard R5 Spades ''5s''] [] [])] [] [])
            ''B'' [''5s'']) = Failure ''Already locked in''
   \<and> snd (setFaceUp (exRoom [(''A'', exState ''A'' [exCard R7 Clubs ''7c''] [] []),
                             (''B'', exState ''B'' [exCard R5 Spades ''5s''] [] [])] [] [])
            ''B'' [''5s''])
       = exRoom [(''A'', exState ''A'' [exCard R7 Clubs ''7c''] [] []),
                 (''B'', exState ''B'' [exCard R5 Spades ''5s''] [] [])] [] []"
proof -
  let ?room = "exRoom [(''A'', exState ''A'' [exCard R7 Clubs ''7c''] [] []),
                       (''B'', exState ''B'' [exCard R5 Spades ''5s''] [] [])] [] []"
  have p: "fst (playCards ?room ''B'' (exPlay [''5s''])) = Failure ''Not your turn''"
    by (simp add: playCards_def ex_defs)
  have s: "fst (setFaceUp ?room ''B'' [''5s'']) = Failure ''Already locked in''"
    by (simp add: setFaceUp_def ex_defs)
  from p s
    failure_leaves_room_unchanged [of ?room "''B''" "exPlay [''5s'']" "''Not your turn''"
      "[''5s'']" "''Already locked in''"]
  show ?thesis by blast
qed

section \<open>The required zone\<close>

text \<open>
  C7. For a player with a state, \<open>playerZoneToUse\<close> answers hand whenever the deck is
  not empty, also when that player's hand is empty; with an empty deck it answers hand
  when the hand is not empty, else faceUp when the face-up zone is not empty, else
  faceDown. A \<^verbatim>\<open>play:cards\<close> request whose source differs from that zone is always
  answered with a failure and changes nothing; when the requester holds the turn in the
  playing phase the failure is the one naming the zone to play from.
\<close>

theorem required_zone_enforced:
  "(map_of (playersState g) pid = Some ps \<longrightarrow>
      playerZoneToUse g pid =
        (if deck g \<noteq> [] then ''hand''
         else if hand ps \<noteq> [] then ''hand''
         else if faceUp ps \<noteq> [] then ''faceUp''
         else ''faceDown''))
   \<and> (game room = Some g' \<and> source req \<noteq> playerZoneToUse g' sid \<longrightarrow>
        (\<exists>e. playCards room sid req = (Failure e, room)))
   \<and> (game room = Some g' \<and> phase room = Playing \<and> currentPlayerId g' = Some sid
        \<and> map_of (playersState g') sid = Some ps' \<and> source req \<noteq> playerZoneToUse g' sid \<longrightarrow>
        playCards room sid req = (Failure (''You must play from '' @ playerZoneToUse g' sid), room))"
proof -
  have zone: "map_of (playersState g) pid = Some ps \<longrightarrow>
      playerZoneToUse g pid =
        (if deck g \<noteq> [] then ''hand''
         else if hand ps \<noteq> [] then ''hand''
         else if faceUp ps \<noteq> [] then ''faceUp''
         else ''faceDown'')"
    by (simp add: playerZoneToUse_def)
  have any: "\<exists>e. playCards room sid req = (Failure e, room)"
    if "game room = Some g'" "source req \<noteq> playerZoneToUse g' sid"
    using that by (auto simp: playCards_def Let_def split: option.splits)
  have named: "playCards room sid req
                 = (Failure (''You must play from '' @ playerZoneToUse g' sid), room)"
    if "game room = Some g'" "phase room = Playing" "currentPlayerId g' = Some sid"
      "map_of (playersState g') sid = Some ps'" "source req \<noteq> playerZoneToUse g' sid"
    using that by (simp add: playCards_def Let_def)
  from zone any named show ?thesis by blast
qed

theorem required_zone_enforced_witness:
  "playerZoneToUse
     (exGame [(''A'', exState ''A'' [] [exCard R7 Clubs ''7c''] [exCard R9 Clubs ''9c'']),
              (''B'', exState ''B'' [exCard R5 Spades ''5s''] [] [])]
        [exCard R4 Hearts ''4h''] []) ''A'' = ''hand''
   \<and> playCards
       (exRoom [(''A'', exState ''A'' [] [exCard R7 Clubs ''7c''] [exCard R9 Clubs ''9c'']),
                (''B'', exState ''B'' [exCard R5 Spades ''5s''] [] [])]
          [exCard R4 Hearts ''4h''] [])
       ''A'' \<lparr>cardIds = [''7c''], source = ''faceUp'', faceDownIndex = None\<rparr>
     = (Failure ''You must play from hand'',
        exRoom [(''A'', exState ''A'' [] [exCard R7 Clubs ''7c''] [exCard R9 Clubs ''9c'']),
                (''B'', exState ''B'' [exCard R5 Spades ''5s''] [] [])]
          [exCard R4 Hearts ''4h''] [])"
proof -
  let ?pst = "[(''A'', exState ''A'' [] [exCard R7 Clubs ''7c''] [exCard R9 Clubs ''9c'']),
               (''B'', exState ''B'' [exCard R5 Spades ''5s''] [] [])]"
  let ?g = "exGame ?pst [exCard R4 Hearts ''4h''] []"
  let ?room = "exRoom ?pst [exCard R4 Hearts ''4h''] []"
  let ?req = "\<lparr>cardIds = [''7c''], source = ''faceUp'', faceDownIndex = None\<rparr>"
  let ?ps = "exState ''A'' [] [exCard R7 Clubs ''7c''] [exCard R9 Clubs ''9c'']"
  have look: "map_of (playersState ?g) ''A'' = Some ?ps" by (simp add: ex_defs)
  have dk: "deck ?g \<noteq> []" by (simp add: ex_defs)
  have z: "playerZoneToUse ?g ''A'' = ''hand''"
    using required_zone_enforced [of ?g "''A''" ?ps] look dk by simp
  have pre: "game ?room = Some ?g \<and> phase ?room = Playing \<and> currentPlayerId ?g = Some ''A''
             \<and> map_of (playersState ?g) ''A'' = Some ?ps
             \<and> source ?req \<noteq> playerZoneToUse ?g ''A''"
    using z look by (simp add: ex_defs)
  from required_zone_enforced [of ?g "''A''" ?ps ?room ?g ?req "''A''" ?ps] pre z
  show ?thesis by simp
qed

section \<open>Turn order\<close>

lemma indexOf_absent: "x \<notin> set xs \<Longrightarrow> indexOf xs x = - 1"
  by (induction xs) (auto simp: Let_def)

lemma indexOf_present:
  "x \<in> set xs \<Longrightarrow> 0 \<le> indexOf xs x \<and> nat (indexOf xs x) < length xs \<and> xs ! nat (indexOf xs x) = x"
proof (induction xs)
  case Nil
  then show ?case by simp
next
  case (Cons y ys)
  show ?case
  proof (cases "y = x")
    case True
    then show ?thesis by simp
  next
    case False
    with Cons.prems have "x \<in> set ys" by simp
    from Cons.IH [OF this] False show ?thesis
      by (auto simp: Let_def nat_add_distrib)
  qed
qed

lemma indexOf_nth:
  "distinct xs \<Longrightarrow> i < length xs \<Longrightarrow> indexOf xs (xs ! i) = int i"
proof (induction xs arbitrary: i)
  case Nil
  then show ?case by simp
next
  case (Cons y ys)
  show ?case
  proof (cases i)
    case 0
    then show ?thesis by simp
  next
    case (Suc j)
    with Cons.prems have j: "j < length ys" and d: "distinct ys" and ny: "y \<notin> set ys" by auto
    from j ny have "ys ! j \<noteq> y" by (metis nth_mem)
    with Cons.IH [OF d j] Suc show ?thesis by (simp add: Let_def)
  qed
qed

lemma stepIdx_mod: "i < n \<Longrightarrow> stepIdx k n i = (i + k) mod n"
proof (induction k arbitrary: i)
  case 0
  then show ?case by simp
next
  case (Suc k)
  from Suc.prems have "(i + 1) mod n < n" by simp
  from Suc.IH [OF this] show ?case by (simp add: mod_add_left_eq)
qed

lemma stepIdx_less: "0 < n \<Longrightarrow> i < n \<Longrightarrow> stepIdx k n i < n"
  by (simp add: stepIdx_mod)

lemma spec_nextActive_funpow:
  assumes d: "distinct active" and i: "i < length active"
  shows "(spec_nextActive active ^^ k) (active ! i) = active ! ((i + k) mod length active)"
proof (induction k)
  case 0
  from i show ?case by simp
next
  case (Suc k)
  let ?n = "length active"
  from i have "0 < ?n" by auto
  then have j: "(i + k) mod ?n < ?n" by simp
  have "spec_nextActive active (active ! ((i + k) mod ?n)) = active ! (((i + k) mod ?n + 1) mod ?n)"
    by (simp add: spec_nextActive_def indexOf_nth [OF d j])
  also have "((i + k) mod ?n + 1) mod ?n = (i + Suc k) mod ?n"
    by (simp add: mod_Suc_eq)
  finally show ?case using Suc.IH by simp
qed

lemma activeIds_distinct: "distinct (map fst (players room)) \<Longrightarrow> distinct (activeIds room)"
  by (simp add: activeIds_def Let_def)

lemma nextPlayerId_active:
  assumes "sid \<in> set (activeIds room)"
  shows "nextPlayerId room sid k =
           Some (activeIds room ! ((nat (indexOf (activeIds room) sid) + k) mod length (activeIds room)))"
proof -
  from assms have ne: "activeIds room \<noteq> []" by auto
  then have ids: "map fst (players room) \<noteq> []" by (auto simp: activeIds_def Let_def)
  from indexOf_present [OF assms]
  have ge: "indexOf (activeIds room) sid \<noteq> - 1"
    and lt: "nat (indexOf (activeIds room) sid) < length (activeIds room)" by auto
  from ne ids ge show ?thesis
    by (simp add: nextPlayerId_def Let_def stepIdx_mod [OF lt])
qed

lemma nextPlayerId_spec:
  assumes a: "sid \<in> set (activeIds room)" and d: "distinct (map fst (players room))"
  shows "nextPlayerId room sid k = Some ((spec_nextActive (activeIds room) ^^ k) sid)"
proof -
  let ?a = "activeIds room"
  from indexOf_present [OF a]
  have lt: "nat (indexOf ?a sid) < length ?a" and nth: "?a ! nat (indexOf ?a sid) = sid" by auto
  from spec_nextActive_funpow [OF activeIds_distinct [OF d] lt, of k] nth
  show ?thesis by (simp add: nextPlayerId_active [OF a])
qed

lemma nextPlayerId_in_active:
  assumes "nextPlayerId room sid k = Some c"
  shows "c \<in> set (activeIds room)"
proof -
  let ?a = "activeIds room"
  from assms have ne: "?a \<noteq> []"
    by (auto simp: nextPlayerId_def Let_def split: if_splits)
  then have pos: "0 < length ?a" by simp
  define i where "i = (if indexOf ?a sid = - 1 then 0 else nat (indexOf ?a sid))"
  have "i < length ?a"
  proof (cases "sid \<in> set ?a")
    case True
    from indexOf_present [OF this] show ?thesis by (auto simp: i_def)
  next
    case False
    then show ?thesis using pos by (simp add: i_def indexOf_absent)
  qed
  then have "stepIdx k (length ?a) i < length ?a" using pos by (rule stepIdx_less [rotated])
  moreover from assms ne have "c = ?a ! stepIdx k (length ?a) i"
    by (auto simp: nextPlayerId_def Let_def i_def split: if_splits)
  ultimately show ?thesis by simp
qed

lemma activeIds_game_update:
  "game room = Some g \<Longrightarrow> finished g1 = finished g \<Longrightarrow>
   activeIds (room\<lparr>game := Some g1\<rparr>) = activeIds room"
  by (simp add: activeIds_def)

lemma nextPlayerId_game_update:
  "game room = Some g \<Longrightarrow> finished g1 = finished g \<Longrightarrow>
   nextPlayerId (room\<lparr>game := Some g1\<rparr>) sid k = nextPlayerId room sid k"
  by (simp add: nextPlayerId_def activeIds_game_update)

section \<open>Finish resolution\<close>

lemma addFinished_mem:
  "x \<in> set (addFinished ps pst fin) \<longleftrightarrow>
     x \<in> set fin \<or> (x \<in> fst ` set ps \<and> (\<exists>st. map_of pst x = Some st \<and> isPlayerOut st))"
  by (induction ps pst fin rule: addFinished.induct) (auto split: option.splits)

lemma addFinished_prefix: "\<exists>new. addFinished ps pst fin = fin @ new"
  by (induction ps pst fin rule: addFinished.induct) (auto split: option.splits)

lemma addFinished_same:
  assumes "\<forall>p \<in> set ps. \<forall>st. map_of pst (fst p) = Some st \<longrightarrow> isPlayerOut st \<longrightarrow> fst p \<in> set fin"
  shows "addFinished ps pst fin = fin"
  using assms by (induction ps pst fin rule: addFinished.induct) (auto split: option.splits)

lemma ensureFinish_fields:
  assumes "game room = Some g"
  shows "\<exists>g'. game (ensureFinishAndMaybeEnd room) = Some g'
           \<and> deck g' = deck g \<and> pile g' = pile g \<and> burned g' = burned g
           \<and> playersState g' = playersState g
           \<and> finished g' = addFinished (players room) (playersState g) (finished g)"
  using assms by (simp add: ensureFinishAndMaybeEnd_def Let_def split: option.splits)

lemma ensureFinish_room_fields:
  "players (ensureFinishAndMaybeEnd room) = players room
   \<and> code (ensureFinishAndMaybeEnd room) = code room
   \<and> hostSocketId (ensureFinishAndMaybeEnd room) = hostSocketId room"
  by (simp add: ensureFinishAndMaybeEnd_def Let_def split: option.splits)

lemma ensureFinish_current_kept:
  assumes g: "game room = Some g"
    and nf: "\<forall>c. currentPlayerId g = Some c \<longrightarrow>
               c \<notin> set (addFinished (players room) (playersState g) (finished g))"
    and g': "game (ensureFinishAndMaybeEnd room) = Some g'"
  shows "currentPlayerId g' = currentPlayerId g"
  using assms
  by (cases "currentPlayerId g")
     (auto simp: ensureFinishAndMaybeEnd_def Let_def split: if_splits)

lemma finishRecorded_ensureFinish: "finishRecorded (ensureFinishAndMaybeEnd room)"
proof (cases "game room")
  case None
  then show ?thesis by (simp add: ensureFinishAndMaybeEnd_def finishRecorded_def)
next
  case (Some g)
  from ensureFinish_fields [OF Some] obtain g' where
    g': "game (ensureFinishAndMaybeEnd room) = Some g'"
    and pst: "playersState g' = playersState g"
    and fin: "finished g' = addFinished (players room) (playersState g) (finished g)"
    by blast
  show ?thesis
    using ensureFinish_room_fields [of room]
    by (auto simp: finishRecorded_def g' pst fin list_all_iff addFinished_mem split: option.splits)
qed

text \<open>
  What \<open>ensureFinishAndMaybeEnd\<close> does by cases: newly finished players are appended
  to \<open>finished\<close>; with one active player left among at least two members the game ends;
  otherwise a finished current player hands the turn to \<open>nextPlayerId\<close>.
\<close>

lemma ensureFinish_unfold:
  assumes "game room = Some g"
  shows "ensureFinishAndMaybeEnd room =
           (let fin = addFinished (players room) (playersState g) (finished g);
                g1 = g\<lparr>finished := fin\<rparr>;
                active = activeIds (room\<lparr>game := Some g1\<rparr>);
                curFinished = (case currentPlayerId g of None \<Rightarrow> False | Some c \<Rightarrow> c \<in> set fin)
            in if length active = 1 \<and> length (players room) \<ge> 2
               then room\<lparr>phase := Ended,
                         game := Some (g1\<lparr>winnerId := (case fin of [] \<Rightarrow> None | w # _ \<Rightarrow> Some w),
                                          loserId := (case active of [] \<Rightarrow> None | l # _ \<Rightarrow> Some l),
                                          currentPlayerId :=
                                            (if curFinished
                                             then (case active of [] \<Rightarrow> None | l # _ \<Rightarrow> Some l)
                                             else currentPlayerId g)\<rparr>)\<rparr>
               else room\<lparr>game := Some (g1\<lparr>currentPlayerId :=
                            (case currentPlayerId g of
                               None \<Rightarrow> None
                             | Some c \<Rightarrow> if c \<in> set fin
                                         then nextPlayerId (room\<lparr>game := Some g1\<rparr>) c 1
                                         else Some c)\<rparr>)\<rparr>)"
  using assms
  by (cases "currentPlayerId g")
     (simp_all add: ensureFinishAndMaybeEnd_def activeIds_def Let_def)

lemma ensureFinish_ended:
  assumes g: "game room = Some g"
    and fin: "fin = addFinished (players room) (playersState g) (finished g)"
    and one: "activeIds (room\<lparr>game := Some (g\<lparr>finished := fin\<rparr>)\<rparr>) = [l]"
    and two: "length (players room) \<ge> 2"
  shows "\<exists>g'. game (ensureFinishAndMaybeEnd room) = Some g'
           \<and> phase (ensureFinishAndMaybeEnd room) = Ended
           \<and> finished g' = fin
           \<and> winnerId g' = (case fin of [] \<Rightarrow> None | w # _ \<Rightarrow> Some w)
           \<and> loserId g' = Some l"
  using one two unfolding fin ensureFinish_unfold [OF g]
  by (simp add: Let_def)

lemma ensureFinish_bump:
  assumes g: "game room = Some g"
    and fin: "fin = addFinished (players room) (playersState g) (finished g)"
    and notend: "\<not> (length (activeIds (room\<lparr>game := Some (g\<lparr>finished := fin\<rparr>)\<rparr>)) = 1
                  \<and> length (players room) \<ge> 2)"
    and cur: "currentPlayerId g = Some c" and c: "c \<in> set fin"
  shows "\<exists>g'. game (ensureFinishAndMaybeEnd room) = Some g'
           \<and> phase (ensureFinishAndMaybeEnd room) = phase room
           \<and> finished g' = fin
           \<and> currentPlayerId g' = nextPlayerId (room\<lparr>game := Some (g\<lparr>finished := fin\<rparr>)\<rparr>) c 1"
  using notend cur c unfolding fin ensureFinish_unfold [OF g]
  by (auto simp: Let_def)

text \<open>
  The player \<open>nextPlayerId\<close> returns for a player who is not active: the second active
  player in join order (the only one when a single player is active), wherever the
  finished player sat.
\<close>

lemma nextPlayerId_inactive:
  assumes "c \<notin> set (activeIds room)" and "activeIds room \<noteq> []"
  shows "nextPlayerId room c 1 = Some (activeIds room ! (1 mod length (activeIds room)))"
proof -
  from assms(2) have "map fst (players room) \<noteq> []" by (auto simp: activeIds_def Let_def)
  with assms show ?thesis
    by (simp add: nextPlayerId_def Let_def indexOf_absent)
qed

text \<open>
  After \<open>ensureFinishAndMaybeEnd\<close> the turn is never with a finished player; and when
  the player who held the turn is finished, the turn goes to a member of the room.
\<close>

lemma ensureFinish_turn:
  assumes g: "game room = Some g" and g': "game (ensureFinishAndMaybeEnd room) = Some g'"
  shows "(\<forall>c. currentPlayerId g' = Some c \<longrightarrow> c \<notin> set (finished g'))
       \<and> (\<forall>c0 c. currentPlayerId g = Some c0 \<and> c0 \<in> set (finished g')
                  \<and> currentPlayerId g' = Some c \<longrightarrow> c \<in> fst ` set (players room))"
proof -
  define fin where "fin = addFinished (players room) (playersState g) (finished g)"
  let ?r1 = "room\<lparr>game := Some (g\<lparr>finished := fin\<rparr>)\<rparr>"
  from ensureFinish_fields [OF g] g' have fin': "finished g' = fin" by (simp add: fin_def)
  have act: "c \<notin> set fin \<and> c \<in> fst ` set (players room)" if "c \<in> set (activeIds ?r1)" for c
    using that by (auto simp: activeIds_def)
  have nxt: "c \<notin> set fin \<and> c \<in> fst ` set (players room)"
    if "nextPlayerId ?r1 c0 1 = Some c" for c0 c
    using nextPlayerId_in_active [OF that] act by blast
  note unf = ensureFinish_unfold [OF g, unfolded fin_def [symmetric] Let_def]
  show ?thesis
  proof (cases "length (activeIds ?r1) = 1 \<and> length (players room) \<ge> 2")
    case True
    then obtain l where l: "activeIds ?r1 = [l]" by (cases "activeIds ?r1") auto
    then have la: "l \<notin> set fin \<and> l \<in> fst ` set (players room)" using act by simp
    from g' True l have cur: "currentPlayerId g' =
        (if (case currentPlayerId g of None \<Rightarrow> False | Some c \<Rightarrow> c \<in> set fin)
         then Some l else currentPlayerId g)"
      unfolding unf by auto
    with la show ?thesis unfolding fin' by (auto split: option.splits if_splits)
  next
    case False
    from g' False have cur: "currentPlayerId g' =
        (case currentPlayerId g of None \<Rightarrow> None
         | Some c \<Rightarrow> if c \<in> set fin then nextPlayerId ?r1 c 1 else Some c)"
      unfolding unf by (auto split: if_splits)
    with nxt show ?thesis unfolding fin' by (auto split: option.splits if_splits)
  qed
qed

section \<open>Forced pickup\<close>

lemma activeIds_not_finished:
  "game room = Some g \<Longrightarrow> c \<in> set (activeIds room) \<Longrightarrow> c \<notin> set (finished g)"
  by (simp add: activeIds_def)

lemma resolvePlay_forced:
  assumes "played \<noteq> []" and "\<not> canPlayOnPile (card_r (hd played)) (pile g)"
    and "game room = Some g"
  shows "resolvePlay room g sid src played ps1 =
           (Success True False,
            ensureFinishAndMaybeEnd
              (room\<lparr>game := Some (g\<lparr>playersState :=
                                      AList.update sid (ps1\<lparr>hand := hand ps1 @ played @ pile g\<rparr>)
                                        (playersState g),
                                    pile := [],
                                    currentPlayerId := nextPlayerId room sid 1\<rparr>)\<rparr>))"
  using assms
  by (cases played) (simp_all add: resolvePlay_def Let_def nextPlayerId_game_update)

lemma finishRecorded_after_gain:
  assumes fr: "finishRecorded room" and g: "game room = Some g" and ne: "hand st' \<noteq> []"
  shows "addFinished (players room) (AList.update sid st' (playersState g)) (finished g) = finished g"
proof (rule addFinished_same, intro ballI allI impI)
  fix p st
  assume p: "p \<in> set (players room)"
    and st: "map_of (AList.update sid st' (playersState g)) (fst p) = Some st"
    and out: "isPlayerOut st"
  have "fst p \<noteq> sid"
  proof
    assume "fst p = sid"
    with st have "st = st'" by (simp add: update_conv')
    with out ne show False by (simp add: isPlayerOut_def)
  qed
  with st have "map_of (playersState g) (fst p) = Some st" by (simp add: update_conv')
  with fr g p out show "fst p \<in> set (finished g)"
    by (auto simp: finishRecorded_def list_all_iff)
qed

text \<open>
  C3. A \<^verbatim>\<open>play:cards\<close> request that the handler accepts (current player, required
  zone, valid selection) and whose first played card fails \<open>canPlayOnPile\<close> against the
  pile is answered with success and \<open>forcedPickup\<close>, not with an error; afterwards the
  player's hand is the hand left by the selection followed by the played cards and the
  whole prior pile, the pile is empty, and the turn is one step further: at
  \<open>nextPlayerId room sid 1\<close>, the player after the requester among the active players.
  The room is one in which every player without cards is already recorded as finished,
  as \<open>ensureFinishAndMaybeEnd\<close> leaves it after every move.
\<close>

theorem illegal_play_forced_pickup:
  assumes acc: "accepted room sid req g ps played ps1"
    and illegal: "\<not> canPlayOnPile (card_r (hd played)) (pile g)"
    and fr: "finishRecorded room"
  shows "\<exists>room' g'. playCards room sid req = (Success True False, room')
           \<and> game room' = Some g'
           \<and> map_of (playersState g') sid = Some (ps1\<lparr>hand := hand ps1 @ played @ pile g\<rparr>)
           \<and> pile g' = []
           \<and> currentPlayerId g' = nextPlayerId room sid 1
           \<and> (sid \<in> set (activeIds room) \<and> distinct (map fst (players room)) \<longrightarrow>
                currentPlayerId g' = Some (spec_nextActive (activeIds room) sid))"
proof -
  from acc have g: "game room = Some g" by (simp add: accepted_def)
  from acc have ne: "played \<noteq> []" by (auto simp: accepted_def dest: selectCards_nonempty)
  let ?ps2 = "ps1\<lparr>hand := hand ps1 @ played @ pile g\<rparr>"
  let ?g2 = "g\<lparr>playersState := AList.update sid ?ps2 (playersState g), pile := [],
               currentPlayerId := nextPlayerId room sid 1\<rparr>"
  let ?r2 = "room\<lparr>game := Some ?g2\<rparr>"
  have play: "playCards room sid req = (Success True False, ensureFinishAndMaybeEnd ?r2)"
    by (simp add: playCards_accepted [OF acc] resolvePlay_forced [OF ne illegal g])
  have g2: "game ?r2 = Some ?g2" by simp
  from ensureFinish_fields [OF g2] obtain g' where
    g': "game (ensureFinishAndMaybeEnd ?r2) = Some g'"
    and pile': "pile g' = pile ?g2"
    and pst': "playersState g' = playersState ?g2"
    by blast
  from ne have hne: "hand ?ps2 \<noteq> []" by simp
  have same: "addFinished (players ?r2) (playersState ?g2) (finished ?g2) = finished g"
    using finishRecorded_after_gain [OF fr g hne, of sid] by simp
  have keep: "\<forall>c. currentPlayerId ?g2 = Some c \<longrightarrow>
                c \<notin> set (addFinished (players ?r2) (playersState ?g2) (finished ?g2))"
    unfolding same
    by (auto dest: nextPlayerId_in_active activeIds_not_finished [OF g])
  from ensureFinish_current_kept [OF g2 keep g']
  have cur: "currentPlayerId g' = nextPlayerId room sid 1" by simp
  have step: "currentPlayerId g' = Some (spec_nextActive (activeIds room) sid)"
    if "sid \<in> set (activeIds room)" "distinct (map fst (players room))"
    using nextPlayerId_spec [OF that, of 1] cur by simp
  from play g' pile' pst' cur step show ?thesis
    by (simp add: update_conv')
qed

theorem illegal_play_forced_pickup_witness:
  "accepted
     (exRoom [(''A'', exState ''A'' [exCard R4 Spades ''4s'', exCard R9 Clubs ''9c''] [] []),
              (''B'', exState ''B'' [exCard R5 Spades ''5s''] [] []),
              (''C'', exState ''C'' [exCard R6 Spades ''6s''] [] [])] []
             [exCard RK Hearts ''Kh''])
     ''A'' (exPlay [''4s''])
     (exGame [(''A'', exState ''A'' [exCard R4 Spades ''4s'', exCard R9 Clubs ''9c''] [] []),
              (''B'', exState ''B'' [exCard R5 Spades ''5s''] [] []),
              (''C'', exState ''C'' [exCard R6 Spades ''6s''] [] [])] []
             [exCard RK Hearts ''Kh''])
     (exState ''A'' [exCard R4 Spades ''4s'', exCard R9 Clubs ''9c''] [] [])
     [exCard R4 Spades ''4s'']
     (exState ''A'' [exCard R9 Clubs ''9c''] [] [])
   \<and> \<not> canPlayOnPile R4 [exCard RK Hearts ''Kh'']
   \<and> finishRecorded
       (exRoom [(''A'', exState ''A'' [exCard R4 Spades ''4s'', exCard R9 Clubs ''9c''] [] []),
                (''B'', exState ''B'' [exCard R5 Spades ''5s''] [] []),
                (''C'', exState ''C'' [exCard R6 Spades ''6s''] [] [])] []
               [exCard RK Hearts ''Kh''])
   \<and> (\<exists>room' g'.
        playCards
          (exRoom [(''A'', exState ''A'' [exCard R4 Spades ''4s'', exCard R9 Clubs ''9c''] [] []),
                   (''B'', exState ''B'' [exCard R5 Spades ''5s''] [] []),
                   (''C'', exState ''C'' [exCard R6 Spades ''6s''] [] [])] []
                  [exCard RK Hearts ''Kh''])
          ''A'' (exPlay [''4s'']) = (Success True False, room')
        \<and> game room' = Some g'
        \<and> map_of (playersState g') ''A''
            = Some (exState ''A''
                      [exCard R9 Clubs ''9c'', exCard R4 Spades ''4s'', exCard RK Hearts ''Kh''] [] [])
        \<and> pile g' = []
        \<and> currentPlayerId g' = Some ''B'')"
proof -
  let ?pst = "[(''A'', exState ''A'' [exCard R4 Spades ''4s'', exCard R9 Clubs ''9c''] [] []),
               (''B'', exState ''B'' [exCard R5 Spades ''5s''] [] []),
               (''C'', exState ''C'' [exCard R6 Spades ''6s''] [] [])]"
  let ?pile = "[exCard RK Hearts ''Kh'']"
  let ?room = "exRoom ?pst [] ?pile"
  let ?g = "exGame ?pst [] ?pile"
  let ?ps = "exState ''A'' [exCard R4 Spades ''4s'', exCard R9 Clubs ''9c''] [] []"
  let ?ps1 = "exState ''A'' [exCard R9 Clubs ''9c''] [] []"
  let ?played = "[exCard R4 Spades ''4s'']"
  have acc: "accepted ?room ''A'' (exPlay [''4s'']) ?g ?ps ?played ?ps1"
    by (simp add: handler_defs ex_defs)
  have ill: "\<not> canPlayOnPile (card_r (hd ?played)) (pile ?g)"
    by (simp add: rule_defs ex_defs)
  have fr: "finishRecorded ?room"
    by (simp add: finishRecorded_def isPlayerOut_def ex_defs)
  have act: "activeIds ?room = [''A'', ''B'', ''C'']"
    by (simp add: activeIds_def ex_defs)
  have nxt: "spec_nextActive (activeIds ?room) ''A'' = ''B''"
    by (simp add: act spec_nextActive_def)
  have dist: "''A'' \<in> set (activeIds ?room) \<and> distinct (map fst (players ?room))"
    by (simp add: act) (simp add: ex_defs)
  have hand': "?ps1\<lparr>hand := hand ?ps1 @ ?played @ pile ?g\<rparr>
                 = exState ''A''
                     [exCard R9 Clubs ''9c'', exCard R4 Spades ''4s'', exCard RK Hearts ''Kh''] [] []"
    by (simp add: ex_defs)
  have ill0: "\<not> canPlayOnPile R4 ?pile"
    by (simp add: rule_defs ex_defs)
  from illegal_play_forced_pickup [OF acc ill fr] obtain room' g' where
    r: "playCards ?room ''A'' (exPlay [''4s'']) = (Success True False, room')"
    and g': "game room' = Some g'"
    and h: "map_of (playersState g') ''A'' = Some (?ps1\<lparr>hand := hand ?ps1 @ ?played @ pile ?g\<rparr>)"
    and p: "pile g' = []"
    and c: "''A'' \<in> set (activeIds ?room) \<and> distinct (map fst (players ?room)) \<longrightarrow>
              currentPlayerId g' = Some (spec_nextActive (activeIds ?room) ''A'')"
    by blast
  from c dist nxt have c': "currentPlayerId g' = Some ''B''" by simp
  from h hand' have h': "map_of (playersState g') ''A''
      = Some (exState ''A''
               [exCard R9 Clubs ''9c'', exCard R4 Spades ''4s'', exCard RK Hearts ''Kh''] [] [])"
    by simp
  from acc ill0 fr r g' h' p c' show ?thesis by blast
qed

section \<open>Replenishing the hand\<close>

lemma drawLoop_take_drop:
  "drawLoop h d = (h @ take (3 - length h) d, drop (3 - length h) d)"
proof (induction d arbitrary: h)
  case Nil
  show ?case by simp
next
  case (Cons c d)
  show ?case
  proof (cases "length h < 3")
    case True
    then obtain k where k: "3 - length h = Suc k" by (cases "3 - length h") auto
    then have "3 - length (h @ [c]) = k" by simp
    with True k Cons.IH [of "h @ [c]"] show ?thesis by simp
  next
    case False
    then show ?thesis by simp
  qed
qed

lemma drawUpToThree_eq:
  "drawUpToThree g pid =
     (case map_of (playersState g) pid of
        None \<Rightarrow> g
      | Some ps \<Rightarrow>
          g\<lparr>deck := drop (3 - length (hand ps)) (deck g),
            playersState :=
              AList.update pid (ps\<lparr>hand := hand ps @ take (3 - length (hand ps)) (deck g)\<rparr>)
                (playersState g)\<rparr>)"
proof (cases "map_of (playersState g) pid")
  case None
  then show ?thesis by (simp add: drawUpToThree_def)
next
  case (Some ps)
  show ?thesis
  proof (cases "deck g = []")
    case True
    with Some show ?thesis by (simp add: drawUpToThree_def update_triv)
  next
    case False
    with Some show ?thesis by (simp add: drawUpToThree_def drawLoop_take_drop)
  qed
qed

section \<open>Legal plays\<close>

text \<open>
  The game handed to \<open>ensureFinishAndMaybeEnd\<close> after a legal play from the zone
  \<open>src\<close>, field by field.
\<close>

lemma resolvePlay_burn:
  assumes "played \<noteq> []" and "canPlayOnPile (card_r (hd played)) (pile g)"
    and "card_r (hd played) = R10 \<or> lastFourNon3Same (pile g @ played)"
  shows "\<exists>g3. resolvePlay room g sid src played ps1 =
                 (Success False True, ensureFinishAndMaybeEnd (room\<lparr>game := Some g3\<rparr>))
           \<and> playersState g3 =
               AList.update sid
                 (if src = ''hand''
                  then ps1\<lparr>hand := hand ps1 @ take (3 - length (hand ps1)) (deck g)\<rparr>
                  else ps1) (playersState g)
           \<and> pile g3 = []
           \<and> burned g3 = burned g @ pile g @ played
           \<and> deck g3 = (if src = ''hand'' then drop (3 - length (hand ps1)) (deck g) else deck g)
           \<and> currentPlayerId g3 = currentPlayerId g
           \<and> finished g3 = finished g"
  using assms
  by (cases played) (auto simp: resolvePlay_def Let_def drawUpToThree_eq update_conv')

lemma resolvePlay_plain:
  assumes "played \<noteq> []" and "canPlayOnPile (card_r (hd played)) (pile g)"
    and "card_r (hd played) \<noteq> R10" and "\<not> lastFourNon3Same (pile g @ played)"
    and "game room = Some g"
  shows "\<exists>g3. resolvePlay room g sid src played ps1 =
                 (Success False False, ensureFinishAndMaybeEnd (room\<lparr>game := Some g3\<rparr>))
           \<and> playersState g3 =
               AList.update sid
                 (if src = ''hand''
                  then ps1\<lparr>hand := hand ps1 @ take (3 - length (hand ps1)) (deck g)\<rparr>
                  else ps1) (playersState g)
           \<and> pile g3 = pile g @ played
           \<and> burned g3 = burned g
           \<and> deck g3 = (if src = ''hand'' then drop (3 - length (hand ps1)) (deck g) else deck g)
           \<and> currentPlayerId g3 =
               nextPlayerId room sid (1 + length (filter (\<lambda>c. card_r c = R8) played))
           \<and> finished g3 = finished g"
  using assms
  by (cases played)
     (auto simp: resolvePlay_def Let_def drawUpToThree_eq update_conv' nextPlayerId_game_update)

lemmas exec_defs =
  playCards_def resolvePlay_def ensureFinishAndMaybeEnd_def nextPlayerId_def activeIds_def
  drawUpToThree_def playerZoneToUse_def selectCards_def removeCardsByIds_def isPlayerOut_def
  canPlayOnPile_def isMagic_def pileEffectiveTopRank_def lastFourNon3Same_def Let_def

section \<open>When a play burns\<close>

text \<open>
  C2, as the code has it. \<open>lastFourNon3Same\<close> holds exactly when the cards of the
  pile whose rank is not 3 number at least four and the last four of them share one rank;
  with fewer than four such cards it is false. An accepted play burns exactly when it is
  legal (\<open>canPlayOnPile\<close> allows its rank on the pile) and either its rank is 10 or,
  after the played cards are appended, that condition holds of the pile. A burning play
  is answered with \<open>burned\<close> and moves the pile with the played cards to the end of the
  burned pile; any other accepted play leaves the burned pile as it was (a legal one
  leaves the played cards on the pile, an illegal one is the forced pickup). A 10 is
  always legal, so an accepted play of rank 10 always burns, whatever the pile holds.
\<close>

theorem legal_play_burns_iff:
  "lastFourNon3Same p = spec_fourOfAKind p
   \<and> (length (filter (\<lambda>c. card_r c \<noteq> R3) p) < 4 \<longrightarrow> \<not> lastFourNon3Same p)
   \<and> (accepted room sid req g ps played ps1 \<longrightarrow>
        (\<exists>room' g'.
           playCards room sid req =
             (Success (\<not> canPlayOnPile (card_r (hd played)) (pile g))
                (canPlayOnPile (card_r (hd played)) (pile g)
                 \<and> (card_r (hd played) = R10 \<or> spec_fourOfAKind (pile g @ played))), room')
           \<and> game room' = Some g'
           \<and> (if canPlayOnPile (card_r (hd played)) (pile g)
                  \<and> (card_r (hd played) = R10 \<or> spec_fourOfAKind (pile g @ played))
               then burned g' = burned g @ pile g @ played \<and> pile g' = []
               else burned g' = burned g
                    \<and> pile g' = (if canPlayOnPile (card_r (hd played)) (pile g)
                                  then pile g @ played else []))))
   \<and> (accepted room sid req g ps played ps1 \<and> card_r (hd played) = R10 \<longrightarrow>
        (\<exists>room' g'. playCards room sid req = (Success False True, room')
           \<and> game room' = Some g'
           \<and> burned g' = burned g @ pile g @ played \<and> pile g' = []))"
proof -
  have few: "length (filter (\<lambda>c. card_r c \<noteq> R3) p) < 4 \<longrightarrow> \<not> lastFourNon3Same p"
    by (simp add: lastFour_refines spec_fourOfAKind_def)
  have burns: "\<exists>room' g'. playCards room sid req = (Success False True, room')
           \<and> game room' = Some g'
           \<and> burned g' = burned g @ pile g @ played \<and> pile g' = []"
    if acc: "accepted room sid req g ps played ps1"
      and legal: "canPlayOnPile (card_r (hd played)) (pile g)"
      and burn: "card_r (hd played) = R10 \<or> spec_fourOfAKind (pile g @ played)"
  proof -
    from acc have ne: "played \<noteq> []" by (auto simp: accepted_def dest: selectCards_nonempty)
    from burn have burn': "card_r (hd played) = R10 \<or> lastFourNon3Same (pile g @ played)"
      by (simp add: lastFour_refines)
    from resolvePlay_burn [OF ne legal burn', of room sid "source req" ps1] obtain g3 where
      res: "resolvePlay room g sid (source req) played ps1 =
              (Success False True, ensureFinishAndMaybeEnd (room\<lparr>game := Some g3\<rparr>))"
      and pile3: "pile g3 = []" and burned3: "burned g3 = burned g @ pile g @ played"
      by blast
    have g3: "game (room\<lparr>game := Some g3\<rparr>) = Some g3" by simp
    from ensureFinish_fields [OF g3] obtain g' where
      "game (ensureFinishAndMaybeEnd (room\<lparr>game := Some g3\<rparr>)) = Some g'"
      "pile g' = pile g3" "burned g' = burned g3" by blast
    with res pile3 burned3 show ?thesis by (simp add: playCards_accepted [OF acc])
  qed
  have plain: "\<exists>room' g'. playCards room sid req = (Success False False, room')
           \<and> game room' = Some g'
           \<and> burned g' = burned g \<and> pile g' = pile g @ played"
    if acc: "accepted room sid req g ps played ps1"
      and legal: "canPlayOnPile (card_r (hd played)) (pile g)"
      and noburn: "\<not> (card_r (hd played) = R10 \<or> spec_fourOfAKind (pile g @ played))"
  proof -
    from acc have g: "game room = Some g" by (simp add: accepted_def)
    from acc have ne: "played \<noteq> []" by (auto simp: accepted_def dest: selectCards_nonempty)
    from noburn have noten: "card_r (hd played) \<noteq> R10"
      and nofour: "\<not> lastFourNon3Same (pile g @ played)"
      by (simp_all add: lastFour_refines)
    from resolvePlay_plain [OF ne legal noten nofour g, of sid "source req" ps1] obtain g3 where
      res: "resolvePlay room g sid (source req) played ps1 =
              (Success False False, ensureFinishAndMaybeEnd (room\<lparr>game := Some g3\<rparr>))"
      and pile3: "pile g3 = pile g @ played" and burned3: "burned g3 = burned g"
      by blast
    have g3: "game (room\<lparr>game := Some g3\<rparr>) = Some g3" by simp
    from ensureFinish_fields [OF g3] obtain g' where
      "game (ensureFinishAndMaybeEnd (room\<lparr>game := Some g3\<rparr>)) = Some g'"
      "pile g' = pile g3" "burned g' = burned g3" by blast
    with res pile3 burned3 show ?thesis by (simp add: playCards_accepted [OF acc])
  qed
  have forced: "\<exists>room' g'. playCards room sid req = (Success True False, room')
           \<and> game room' = Some g'
           \<and> burned g' = burned g \<and> pile g' = []"
    if acc: "accepted room sid req g ps played ps1"
      and illegal: "\<not> canPlayOnPile (card_r (hd played)) (pile g)"
  proof -
    from acc have g: "game room = Some g" by (simp add: accepted_def)
    from acc have ne: "played \<noteq> []" by (auto simp: accepted_def dest: selectCards_nonempty)
    let ?g2 = "g\<lparr>playersState :=
                   AList.update sid (ps1\<lparr>hand := hand ps1 @ played @ pile g\<rparr>) (playersState g),
                 pile := [], currentPlayerId := nextPlayerId room sid 1\<rparr>"
    have g2: "game (room\<lparr>game := Some ?g2\<rparr>) = Some ?g2" by simp
    from ensureFinish_fields [OF g2] obtain g' where
      "game (ensureFinishAndMaybeEnd (room\<lparr>game := Some ?g2\<rparr>)) = Some g'"
      "pile g' = pile ?g2" "burned g' = burned ?g2" by blast
    then show ?thesis
      by (simp add: playCards_accepted [OF acc] resolvePlay_forced [OF ne illegal g])
  qed
  have every: "\<exists>room' g'.
           playCards room sid req =
             (Success (\<not> canPlayOnPile (card_r (hd played)) (pile g))
                (canPlayOnPile (card_r (hd played)) (pile g)
                 \<and> (card_r (hd played) = R10 \<or> spec_fourOfAKind (pile g @ played))), room')
           \<and> game room' = Some g'
           \<and> (if canPlayOnPile (card_r (hd played)) (pile g)
                  \<and> (card_r (hd played) = R10 \<or> spec_fourOfAKind (pile g @ played))
               then burned g' = burned g @ pile g @ played \<and> pile g' = []
               else burned g' = burned g
                    \<and> pile g' = (if canPlayOnPile (card_r (hd played)) (pile g)
                                  then pile g @ played else []))"
    if acc: "accepted room sid req g ps played ps1"
  proof (cases "canPlayOnPile (card_r (hd played)) (pile g)")
    case False
    with forced [OF acc False] show ?thesis by simp
  next
    case legal: True
    show ?thesis
    proof (cases "card_r (hd played) = R10 \<or> spec_fourOfAKind (pile g @ played)")
      case True
      with burns [OF acc legal True] legal show ?thesis by simp
    next
      case False
      with plain [OF acc legal False] legal show ?thesis by simp
    qed
  qed
  have ten: "\<exists>room' g'. playCards room sid req = (Success False True, room')
           \<and> game room' = Some g'
           \<and> burned g' = burned g @ pile g @ played \<and> pile g' = []"
    if acc: "accepted room sid req g ps played ps1" and r: "card_r (hd played) = R10"
  proof -
    have "canPlayOnPile (card_r (hd played)) (pile g)"
      by (simp add: r canPlayOnPile_def isMagic_def)
    from burns [OF acc this] r show ?thesis by simp
  qed
  from few every ten show ?thesis by (simp add: lastFour_refines)
qed

text \<open>
  C2 as stated fails for an illegal play of four of a kind. Two players, empty deck, a 9
  on the pile; A holds the four 5s and plays them all. The request is accepted, its rank
  is not 10, and with the played cards appended the last four cards of rank other than 3
  would all be 5s; yet a 5 may not be played on a 9, so the play is a forced pickup:
  nothing is burned and A takes the four 5s and the 9 into the hand.
\<close>

theorem illegal_four_of_a_kind_counterexample:
  "accepted
     (exRoom [(''A'', exState ''A'' [exCard R5 Spades ''5s'', exCard R5 Hearts ''5h'',
                                    exCard R5 Diamonds ''5d'', exCard R5 Clubs ''5c''] [] []),
              (''B'', exState ''B'' [exCard R6 Spades ''6s''] [] [])] []
             [exCard R9 Hearts ''9h''])
     ''A'' (exPlay [''5s'', ''5h'', ''5d'', ''5c''])
     (exGame [(''A'', exState ''A'' [exCard R5 Spades ''5s'', exCard R5 Hearts ''5h'',
                                    exCard R5 Diamonds ''5d'', exCard R5 Clubs ''5c''] [] []),
              (''B'', exState ''B'' [exCard R6 Spades ''6s''] [] [])] []
             [exCard R9 Hearts ''9h''])
     (exState ''A'' [exCard R5 Spades ''5s'', exCard R5 Hearts ''5h'',
                     exCard R5 Diamonds ''5d'', exCard R5 Clubs ''5c''] [] [])
     [exCard R5 Spades ''5s'', exCard R5 Hearts ''5h'',
      exCard R5 Diamonds ''5d'', exCard R5 Clubs ''5c'']
     (exState ''A'' [] [] [])
   \<and> spec_fourOfAKind
        ([exCard R9 Hearts ''9h'']
         @ [exCard R5 Spades ''5s'', exCard R5 Hearts ''5h'',
            exCard R5 Diamonds ''5d'', exCard R5 Clubs ''5c''])
   \<and> lastFourNon3Same
        ([exCard R9 Hearts ''9h'']
         @ [exCard R5 Spades ''5s'', exCard R5 Hearts ''5h'',
            exCard R5 Diamonds ''5d'', exCard R5 Clubs ''5c''])
   \<and> playCards
        (exRoom [(''A'', exState ''A'' [exCard R5 Spades ''5s'', exCard R5 Hearts ''5h'',
                                       exCard R5 Diamonds ''5d'', exCard R5 Clubs ''5c''] [] []),
                 (''B'', exState ''B'' [exCard R6 Spades ''6s''] [] [])] []
                [exCard R9 Hearts ''9h''])
        ''A'' (exPlay [''5s'', ''5h'', ''5d'', ''5c''])
      = (Success True False,
         \<lparr>code = ''ROOM'', hostSocketId = Some ''A'',
          players = [(''A'', ''A''), (''B'', ''B'')], phase = Playing,
          game = Some \<lparr>deck = [], pile = [], burned = [],
                        currentPlayerId = Some ''B'',
                        playersState =
                          [(''A'', exState ''A'' [exCard R5 Spades ''5s'', exCard R5 Hearts ''5h'',
                                                 exCard R5 Diamonds ''5d'', exCard R5 Clubs ''5c'',
                                                 exCard R9 Hearts ''9h''] [] []),
                           (''B'', exState ''B'' [exCard R6 Spades ''6s''] [] [])],
                        finished = [], winnerId = None, loserId = None\<rparr>\<rparr>)"
proof -
  let ?hand = "[exCard R5 Spades ''5s'', exCard R5 Hearts ''5h'',
                exCard R5 Diamonds ''5d'', exCard R5 Clubs ''5c'']"
  let ?pst = "[(''A'', exState ''A'' ?hand [] []),
               (''B'', exState ''B'' [exCard R6 Spades ''6s''] [] [])]"
  let ?pile = "[exCard R9 Hearts ''9h'']"
  let ?ids = "[''5s'', ''5h'', ''5d'', ''5c'']"
  have acc: "accepted (exRoom ?pst [] ?pile) ''A'' (exPlay ?ids) (exGame ?pst [] ?pile)
               (exState ''A'' ?hand [] []) ?hand (exState ''A'' [] [] [])"
    by (simp add: handler_defs ex_defs)
  have four: "spec_fourOfAKind (?pile @ ?hand)"
    by (simp add: spec_fourOfAKind_def ex_defs)
  have four': "lastFourNon3Same (?pile @ ?hand)"
    by (simp add: lastFourNon3Same_def ex_defs)
  have play: "playCards (exRoom ?pst [] ?pile) ''A'' (exPlay ?ids)
      = (Success True False,
         \<lparr>code = ''ROOM'', hostSocketId = Some ''A'',
          players = [(''A'', ''A''), (''B'', ''B'')], phase = Playing,
          game = Some \<lparr>deck = [], pile = [], burned = [],
                        currentPlayerId = Some ''B'',
                        playersState =
                          [(''A'', exState ''A'' (?hand @ ?pile) [] []),
                           (''B'', exState ''B'' [exCard R6 Spades ''6s''] [] [])],
                        finished = [], winnerId = None, loserId = None\<rparr>\<rparr>)"
    by (simp add: exec_defs ex_defs)
  from acc four four' play show ?thesis by simp
qed

theorem legal_play_burns_iff_witness:
  "accepted
     (exRoom [(''A'', exState ''A'' [exCard R7 Clubs ''7c'', exCard R10 Spades ''10s''] [] []),
              (''B'', exState ''B'' [exCard R5 Spades ''5s''] [] [])] []
             [exCard R7 Spades ''7s'', exCard R3 Clubs ''3c'', exCard R7 Hearts ''7h'',
              exCard R3 Hearts ''3h'', exCard R7 Diamonds ''7d''])
     ''A'' (exPlay [''7c''])
     (exGame [(''A'', exState ''A'' [exCard R7 Clubs ''7c'', exCard R10 Spades ''10s''] [] []),
              (''B'', exState ''B'' [exCard R5 Spades ''5s''] [] [])] []
             [exCard R7 Spades ''7s'', exCard R3 Clubs ''3c'', exCard R7 Hearts ''7h'',
              exCard R3 Hearts ''3h'', exCard R7 Diamonds ''7d''])
     (exState ''A'' [exCard R7 Clubs ''7c'', exCard R10 Spades ''10s''] [] [])
     [exCard R7 Clubs ''7c'']
     (exState ''A'' [exCard R10 Spades ''10s''] [] [])
   \<and> (\<exists>room' g'.
        playCards
          (exRoom [(''A'', exState ''A'' [exCard R7 Clubs ''7c'', exCard R10 Spades ''10s''] [] []),
                   (''B'', exState ''B'' [exCard R5 Spades ''5s''] [] [])] []
                  [exCard R7 Spades ''7s'', exCard R3 Clubs ''3c'', exCard R7 Hearts ''7h'',
                   exCard R3 Hearts ''3h'', exCard R7 Diamonds ''7d''])
          ''A'' (exPlay [''7c'']) = (Success False True, room')
        \<and> game room' = Some g'
        \<and> burned g' = [exCard R7 Spades ''7s'', exCard R3 Clubs ''3c'', exCard R7 Hearts ''7h'',
                        exCard R3 Hearts ''3h'', exCard R7 Diamonds ''7d'', exCard R7 Clubs ''7c'']
        \<and> pile g' = [])"
proof -
  let ?pst = "[(''A'', exState ''A'' [exCard R7 Clubs ''7c'', exCard R10 Spades ''10s''] [] []),
               (''B'', exState ''B'' [exCard R5 Spades ''5s''] [] [])]"
  let ?pile = "[exCard R7 Spades ''7s'', exCard R3 Clubs ''3c'', exCard R7 Hearts ''7h'',
                exCard R3 Hearts ''3h'', exCard R7 Diamonds ''7d'']"
  let ?played = "[exCard R7 Clubs ''7c'']"
  let ?g = "exGame ?pst [] ?pile"
  have acc: "accepted (exRoom ?pst [] ?pile) ''A'' (exPlay [''7c'']) ?g
               (exState ''A'' [exCard R7 Clubs ''7c'', exCard R10 Spades ''10s''] [] [])
               ?played (exState ''A'' [exCard R10 Spades ''10s''] [] [])"
    by (simp add: handler_defs ex_defs)
  have can: "canPlayOnPile (card_r (hd ?played)) (pile ?g)"
    by (simp add: rule_defs ex_defs)
  have four: "spec_fourOfAKind (pile ?g @ ?played)"
    by (simp add: spec_fourOfAKind_def ex_defs)
  have b: "burned ?g @ pile ?g @ ?played = ?pile @ ?played" by (simp add: ex_defs)
  from legal_play_burns_iff [where room = "exRoom ?pst [] ?pile" and sid = "''A''"
      and req = "exPlay [''7c'']" and g = ?g and played = ?played] acc
  obtain room' g' where
    r: "playCards (exRoom ?pst [] ?pile) ''A'' (exPlay [''7c'']) =
          (Success (\<not> canPlayOnPile (card_r (hd ?played)) (pile ?g))
             (canPlayOnPile (card_r (hd ?played)) (pile ?g)
              \<and> (card_r (hd ?played) = R10 \<or> spec_fourOfAKind (pile ?g @ ?played))), room')"
    and g': "game room' = Some g'"
    and s: "if canPlayOnPile (card_r (hd ?played)) (pile ?g)
               \<and> (card_r (hd ?played) = R10 \<or> spec_fourOfAKind (pile ?g @ ?played))
            then burned g' = burned ?g @ pile ?g @ ?played \<and> pile g' = []
            else burned g' = burned ?g
                 \<and> pile g' = (if canPlayOnPile (card_r (hd ?played)) (pile ?g)
                               then pile ?g @ ?played else [])"
    by blast
  from r can four have r': "playCards (exRoom ?pst [] ?pile) ''A'' (exPlay [''7c''])
                              = (Success False True, room')" by simp
  from s can four have s': "burned g' = ?pile @ ?played \<and> pile g' = []"
    unfolding b [symmetric] by simp
  from acc r' g' s' show ?thesis by auto
qed

section \<open>Burning plays\<close>




section \<open>Plain legal plays\<close>

text \<open>
  C5, as the code has it. A legal play that does not burn appends the played cards to
  the pile in order and replenishes the hand from the deck up to three cards when the
  source was the hand. The turn then moves \<open>1 + (number of played 8s)\<close> steps from the
  requester through the players not finished before the play, in join order and wrapping
  (\<open>nextPlayerId\<close>; each step is \<open>spec_nextActive\<close>), unless the steps wrap around to the
  requester and the requester has just emptied all three zones: then the requester is
  recorded as finished and \<open>ensureFinishAndMaybeEnd\<close> takes the turn away, to a member
  of the room who is not finished or to nobody. In every case the turn is not left with
  a finished player. The room is one in which every player without cards is already
  recorded as finished.
\<close>

theorem legal_play_advances_turn:
  assumes acc: "accepted room sid req g ps played ps1"
    and legal: "canPlayOnPile (card_r (hd played)) (pile g)"
    and noten: "card_r (hd played) \<noteq> R10"
    and nofour: "\<not> lastFourNon3Same (pile g @ played)"
    and fr: "finishRecorded room"
  shows "\<exists>room' g' ps'. playCards room sid req = (Success False False, room')
           \<and> game room' = Some g'
           \<and> pile g' = pile g @ played
           \<and> map_of (playersState g') sid = Some ps'
           \<and> ps' = (if source req = ''hand''
                     then ps1\<lparr>hand := hand ps1 @ take (3 - length (hand ps1)) (deck g)\<rparr>
                     else ps1)
           \<and> deck g' = (if source req = ''hand'' then drop (3 - length (hand ps1)) (deck g)
                         else deck g)
           \<and> (case nextPlayerId room sid (1 + length (filter (\<lambda>c. card_r c = R8) played)) of
                 None \<Rightarrow> currentPlayerId g' = None
               | Some c \<Rightarrow> \<not> (c = sid \<and> isPlayerOut ps') \<longrightarrow> currentPlayerId g' = Some c)
           \<and> (sid \<in> set (activeIds room) \<and> distinct (map fst (players room)) \<longrightarrow>
                nextPlayerId room sid (1 + length (filter (\<lambda>c. card_r c = R8) played))
                  = Some ((spec_nextActive (activeIds room)
                            ^^ (1 + length (filter (\<lambda>c. card_r c = R8) played))) sid))
           \<and> (sid \<in> set (finished g') \<longleftrightarrow>
                 sid \<in> set (finished g) \<or> (sid \<in> fst ` set (players room) \<and> isPlayerOut ps'))
           \<and> (\<forall>c. currentPlayerId g' = Some c \<longrightarrow> c \<notin> set (finished g'))
           \<and> (nextPlayerId room sid (1 + length (filter (\<lambda>c. card_r c = R8) played)) = Some sid
                \<and> isPlayerOut ps' \<longrightarrow>
                 sid \<in> set (finished g') \<and> currentPlayerId g' \<noteq> Some sid
                 \<and> (\<forall>c. currentPlayerId g' = Some c \<longrightarrow> c \<in> fst ` set (players room)))"
proof -
  from acc have g: "game room = Some g" by (simp add: accepted_def)
  from acc have ne: "played \<noteq> []" by (auto simp: accepted_def dest: selectCards_nonempty)
  define k where "k = 1 + length (filter (\<lambda>c. card_r c = R8) played)"
  define ps' where "ps' = (if source req = ''hand''
                     then ps1\<lparr>hand := hand ps1 @ take (3 - length (hand ps1)) (deck g)\<rparr>
                     else ps1)"
  from resolvePlay_plain [OF ne legal noten nofour g, of sid "source req" ps1] obtain g3 where
    res: "resolvePlay room g sid (source req) played ps1 =
            (Success False False, ensureFinishAndMaybeEnd (room\<lparr>game := Some g3\<rparr>))"
    and pst3: "playersState g3 = AList.update sid ps' (playersState g)"
    and pile3: "pile g3 = pile g @ played"
    and deck3: "deck g3 = (if source req = ''hand'' then drop (3 - length (hand ps1)) (deck g)
                           else deck g)"
    and cur3: "currentPlayerId g3 = nextPlayerId room sid k"
    and fin3: "finished g3 = finished g"
    unfolding ps'_def k_def by blast
  let ?r3 = "room\<lparr>game := Some g3\<rparr>"
  have g3: "game ?r3 = Some g3" by simp
  from ensureFinish_fields [OF g3] obtain g' where
    g': "game (ensureFinishAndMaybeEnd ?r3) = Some g'"
    and deck': "deck g' = deck g3" and pile': "pile g' = pile g3"
    and pst': "playersState g' = playersState g3"
    and fin': "finished g' = addFinished (players ?r3) (playersState g3) (finished g3)"
    by blast
  have look: "map_of (playersState g') sid = Some ps'" by (simp add: pst' pst3 update_conv')
  have cur: "case nextPlayerId room sid k of
               None \<Rightarrow> currentPlayerId g' = None
             | Some c \<Rightarrow> \<not> (c = sid \<and> isPlayerOut ps') \<longrightarrow> currentPlayerId g' = Some c"
  proof (cases "nextPlayerId room sid k")
    case None
    then have "\<forall>c. currentPlayerId g3 = Some c \<longrightarrow>
            c \<notin> set (addFinished (players ?r3) (playersState g3) (finished g3))"
      by (simp add: cur3)
    from ensureFinish_current_kept [OF g3 this g'] None show ?thesis by (simp add: cur3)
  next
    case (Some c)
    then have act: "c \<in> set (activeIds room)" by (rule nextPlayerId_in_active)
    then have nfin: "c \<notin> set (finished g)" by (rule activeIds_not_finished [OF g])
    from act have mem: "c \<in> fst ` set (players room)" by (auto simp: activeIds_def Let_def)
    have "currentPlayerId g' = Some c" if no: "\<not> (c = sid \<and> isPlayerOut ps')"
    proof -
      have "c \<notin> set (addFinished (players ?r3) (playersState g3) (finished g3))"
      proof
        assume "c \<in> set (addFinished (players ?r3) (playersState g3) (finished g3))"
        with nfin obtain st where st: "map_of (AList.update sid ps' (playersState g)) c = Some st"
          and out: "isPlayerOut st"
          by (auto simp: addFinished_mem fin3 pst3)
        show False
        proof (cases "c = sid")
          case True
          with st have "st = ps'" by (simp add: update_conv')
          with out no True show False by simp
        next
          case False
          with st have "map_of (playersState g) c = Some st" by (simp add: update_conv')
          with fr g mem out have "c \<in> set (finished g)"
            by (auto simp: finishRecorded_def list_all_iff)
          with nfin show False by simp
        qed
      qed
      then have "\<forall>c'. currentPlayerId g3 = Some c' \<longrightarrow>
            c' \<notin> set (addFinished (players ?r3) (playersState g3) (finished g3))"
        by (simp add: cur3 Some)
      from ensureFinish_current_kept [OF g3 this g'] show ?thesis by (simp add: cur3 Some)
    qed
    with Some show ?thesis by simp
  qed
  have step: "nextPlayerId room sid k = Some ((spec_nextActive (activeIds room) ^^ k) sid)"
    if "sid \<in> set (activeIds room)" "distinct (map fst (players room))"
    using that by (rule nextPlayerId_spec)
  have rec: "sid \<in> set (finished g') \<longleftrightarrow>
               sid \<in> set (finished g) \<or> (sid \<in> fst ` set (players room) \<and> isPlayerOut ps')"
    by (simp add: fin' fin3 pst3 addFinished_mem update_conv')
  from ensureFinish_turn [OF g3 g']
  have active: "\<forall>c. currentPlayerId g' = Some c \<longrightarrow> c \<notin> set (finished g')"
    and member: "\<forall>c0 c. currentPlayerId g3 = Some c0 \<and> c0 \<in> set (finished g')
                  \<and> currentPlayerId g' = Some c \<longrightarrow> c \<in> fst ` set (players ?r3)"
    by blast+
  have wrap: "nextPlayerId room sid k = Some sid \<and> isPlayerOut ps' \<longrightarrow>
                 sid \<in> set (finished g') \<and> currentPlayerId g' \<noteq> Some sid
                 \<and> (\<forall>c. currentPlayerId g' = Some c \<longrightarrow> c \<in> fst ` set (players room))"
  proof (intro impI, elim conjE)
    assume n: "nextPlayerId room sid k = Some sid" and out: "isPlayerOut ps'"
    from n have "sid \<in> set (activeIds room)" by (rule nextPlayerId_in_active)
    then have "sid \<in> fst ` set (players room)" by (auto simp: activeIds_def Let_def)
    with out rec have f: "sid \<in> set (finished g')" by blast
    from active f have ne: "currentPlayerId g' \<noteq> Some sid" by blast
    from member f n have "\<forall>c. currentPlayerId g' = Some c \<longrightarrow> c \<in> fst ` set (players room)"
      by (simp add: cur3)
    with f ne show "sid \<in> set (finished g') \<and> currentPlayerId g' \<noteq> Some sid
                 \<and> (\<forall>c. currentPlayerId g' = Some c \<longrightarrow> c \<in> fst ` set (players room))"
      by blast
  qed
  have r: "playCards room sid req = (Success False False, ensureFinishAndMaybeEnd ?r3)"
    using res by (simp add: playCards_accepted [OF acc])
  have p: "pile g' = pile g @ played" by (simp add: pile' pile3)
  have d: "deck g' = (if source req = ''hand'' then drop (3 - length (hand ps1)) (deck g)
                      else deck g)"
    by (simp add: deck' deck3)
  have eq: "ps' = (if source req = ''hand''
                   then ps1\<lparr>hand := hand ps1 @ take (3 - length (hand ps1)) (deck g)\<rparr>
                   else ps1)"
    by (fact ps'_def)
  from step have step': "sid \<in> set (activeIds room) \<and> distinct (map fst (players room)) \<longrightarrow>
      nextPlayerId room sid k = Some ((spec_nextActive (activeIds room) ^^ k) sid)"
    by blast
  show ?thesis
    unfolding k_def [symmetric]
    by (intro exI conjI) (rule r g' p look eq d cur step' rec active wrap)+
qed

text \<open>
  C5 as stated fails when the steps wrap around to a requester who has just played the
  last cards. Three players A, B, C, empty deck; A holds two 8s and plays both: the turn
  moves 1 + 2 = 3 steps through the active players A, B, C and arrives at A, yet
  \<open>currentPlayerId\<close> after the request is C.
\<close>

theorem legal_play_turn_counterexample:
  "accepted
     (exRoom [(''A'', exState ''A'' [exCard R8 Spades ''8s'', exCard R8 Hearts ''8h''] [] []),
              (''B'', exState ''B'' [exCard R5 Spades ''5s''] [] []),
              (''C'', exState ''C'' [exCard R6 Spades ''6s''] [] [])] [] [])
     ''A'' (exPlay [''8s'', ''8h''])
     (exGame [(''A'', exState ''A'' [exCard R8 Spades ''8s'', exCard R8 Hearts ''8h''] [] []),
              (''B'', exState ''B'' [exCard R5 Spades ''5s''] [] []),
              (''C'', exState ''C'' [exCard R6 Spades ''6s''] [] [])] [] [])
     (exState ''A'' [exCard R8 Spades ''8s'', exCard R8 Hearts ''8h''] [] [])
     [exCard R8 Spades ''8s'', exCard R8 Hearts ''8h'']
     (exState ''A'' [] [] [])
   \<and> canPlayOnPile R8 []
   \<and> nextPlayerId
        (exRoom [(''A'', exState ''A'' [exCard R8 Spades ''8s'', exCard R8 Hearts ''8h''] [] []),
                 (''B'', exState ''B'' [exCard R5 Spades ''5s''] [] []),
                 (''C'', exState ''C'' [exCard R6 Spades ''6s''] [] [])] [] [])
        ''A'' (1 + 2) = Some ''A''
   \<and> (spec_nextActive [''A'', ''B'', ''C''] ^^ (1 + 2)) ''A'' = ''A''
   \<and> playCards
        (exRoom [(''A'', exState ''A'' [exCard R8 Spades ''8s'', exCard R8 Hearts ''8h''] [] []),
                 (''B'', exState ''B'' [exCard R5 Spades ''5s''] [] []),
                 (''C'', exState ''C'' [exCard R6 Spades ''6s''] [] [])] [] [])
        ''A'' (exPlay [''8s'', ''8h''])
      = (Success False False,
         \<lparr>code = ''ROOM'', hostSocketId = Some ''A'',
          players = [(''A'', ''A''), (''B'', ''B''), (''C'', ''C'')], phase = Playing,
          game = Some \<lparr>deck = [],
                        pile = [exCard R8 Spades ''8s'', exCard R8 Hearts ''8h''],
                        burned = [],
                        currentPlayerId = Some ''C'',
                        playersState = [(''A'', exState ''A'' [] [] []),
                                        (''B'', exState ''B'' [exCard R5 Spades ''5s''] [] []),
                                        (''C'', exState ''C'' [exCard R6 Spades ''6s''] [] [])],
                        finished = [''A''], winnerId = None, loserId = None\<rparr>\<rparr>)"
proof -
  let ?pst = "[(''A'', exState ''A'' [exCard R8 Spades ''8s'', exCard R8 Hearts ''8h''] [] []),
               (''B'', exState ''B'' [exCard R5 Spades ''5s''] [] []),
               (''C'', exState ''C'' [exCard R6 Spades ''6s''] [] [])]"
  have acc: "accepted (exRoom ?pst [] []) ''A'' (exPlay [''8s'', ''8h'']) (exGame ?pst [] [])
               (exState ''A'' [exCard R8 Spades ''8s'', exCard R8 Hearts ''8h''] [] [])
               [exCard R8 Spades ''8s'', exCard R8 Hearts ''8h''] (exState ''A'' [] [] [])"
    by (simp add: handler_defs ex_defs)
  have can: "canPlayOnPile R8 []" by (simp add: rule_defs)
  have three: "(1::nat) + 2 = Suc (Suc (Suc 0))" by simp
  have nxt: "nextPlayerId (exRoom ?pst [] []) ''A'' (1 + 2) = Some ''A''"
    unfolding three by (simp add: nextPlayerId_def activeIds_def ex_defs)
  have spec: "(spec_nextActive [''A'', ''B'', ''C''] ^^ (1 + 2)) ''A'' = ''A''"
    unfolding three by (simp add: spec_nextActive_def)
  have play: "playCards (exRoom ?pst [] []) ''A'' (exPlay [''8s'', ''8h''])
      = (Success False False,
         \<lparr>code = ''ROOM'', hostSocketId = Some ''A'',
          players = [(''A'', ''A''), (''B'', ''B''), (''C'', ''C'')], phase = Playing,
          game = Some \<lparr>deck = [],
                        pile = [exCard R8 Spades ''8s'', exCard R8 Hearts ''8h''],
                        burned = [],
                        currentPlayerId = Some ''C'',
                        playersState = [(''A'', exState ''A'' [] [] []),
                                        (''B'', exState ''B'' [exCard R5 Spades ''5s''] [] []),
                                        (''C'', exState ''C'' [exCard R6 Spades ''6s''] [] [])],
                        finished = [''A''], winnerId = None, loserId = None\<rparr>\<rparr>)"
    by (simp add: exec_defs ex_defs)
  from acc can nxt spec play show ?thesis by blast
qed

theorem legal_play_advances_turn_witness:
  "accepted
     (exRoom [(''A'', exState ''A'' [exCard R8 Spades ''8s'', exCard R4 Clubs ''4c''] [] []),
              (''B'', exState ''B'' [exCard R5 Spades ''5s''] [] []),
              (''C'', exState ''C'' [exCard R6 Spades ''6s''] [] [])]
             [exCard R9 Diamonds ''9d''] [exCard R6 Hearts ''6h''])
     ''A'' (exPlay [''8s''])
     (exGame [(''A'', exState ''A'' [exCard R8 Spades ''8s'', exCard R4 Clubs ''4c''] [] []),
              (''B'', exState ''B'' [exCard R5 Spades ''5s''] [] []),
              (''C'', exState ''C'' [exCard R6 Spades ''6s''] [] [])]
             [exCard R9 Diamonds ''9d''] [exCard R6 Hearts ''6h''])
     (exState ''A'' [exCard R8 Spades ''8s'', exCard R4 Clubs ''4c''] [] [])
     [exCard R8 Spades ''8s'']
     (exState ''A'' [exCard R4 Clubs ''4c''] [] [])
   \<and> finishRecorded
       (exRoom [(''A'', exState ''A'' [exCard R8 Spades ''8s'', exCard R4 Clubs ''4c''] [] []),
                (''B'', exState ''B'' [exCard R5 Spades ''5s''] [] []),
                (''C'', exState ''C'' [exCard R6 Spades ''6s''] [] [])]
               [exCard R9 Diamonds ''9d''] [exCard R6 Hearts ''6h''])
   \<and> (\<exists>room' g'.
        playCards
          (exRoom [(''A'', exState ''A'' [exCard R8 Spades ''8s'', exCard R4 Clubs ''4c''] [] []),
                   (''B'', exState ''B'' [exCard R5 Spades ''5s''] [] []),
                   (''C'', exState ''C'' [exCard R6 Spades ''6s''] [] [])]
                  [exCard R9 Diamonds ''9d''] [exCard R6 Hearts ''6h''])
          ''A'' (exPlay [''8s'']) = (Success False False, room')
        \<and> game room' = Some g'
        \<and> pile g' = [exCard R6 Hearts ''6h'', exCard R8 Spades ''8s'']
        \<and> map_of (playersState g') ''A''
            = Some (exState ''A'' [exCard R4 Clubs ''4c'', exCard R9 Diamonds ''9d''] [] [])
        \<and> deck g' = []
        \<and> currentPlayerId g' = Some ''C''
        \<and> (spec_nextActive [''A'', ''B'', ''C''] ^^ 2) ''A'' = ''C'')
   \<and> (\<exists>room' g'.
        playCards
          (exRoom [(''A'', exState ''A'' [exCard R8 Spades ''8s'', exCard R8 Hearts ''8h''] [] []),
                   (''B'', exState ''B'' [exCard R5 Spades ''5s''] [] []),
                   (''C'', exState ''C'' [exCard R6 Spades ''6s''] [] [])] [] [])
          ''A'' (exPlay [''8s'', ''8h'']) = (Success False False, room')
        \<and> game room' = Some g'
        \<and> ''A'' \<in> set (finished g')
        \<and> currentPlayerId g' \<noteq> Some ''A''
        \<and> (currentPlayerId g' = Some ''B'' \<or> currentPlayerId g' = Some ''C''
            \<or> currentPlayerId g' = None))"
proof -
  let ?pst = "[(''A'', exState ''A'' [exCard R8 Spades ''8s'', exCard R4 Clubs ''4c''] [] []),
               (''B'', exState ''B'' [exCard R5 Spades ''5s''] [] []),
               (''C'', exState ''C'' [exCard R6 Spades ''6s''] [] [])]"
  let ?deck = "[exCard R9 Diamonds ''9d'']"
  let ?pile = "[exCard R6 Hearts ''6h'']"
  let ?room = "exRoom ?pst ?deck ?pile"
  let ?g = "exGame ?pst ?deck ?pile"
  let ?ps = "exState ''A'' [exCard R8 Spades ''8s'', exCard R4 Clubs ''4c''] [] []"
  let ?ps1 = "exState ''A'' [exCard R4 Clubs ''4c''] [] []"
  let ?played = "[exCard R8 Spades ''8s'']"
  let ?req = "exPlay [''8s'']"
  let ?k = "1 + length (filter (\<lambda>c. card_r c = R8) ?played)"
  have acc: "accepted ?room ''A'' ?req ?g ?ps ?played ?ps1"
    by (simp add: handler_defs ex_defs)
  have legal: "canPlayOnPile (card_r (hd ?played)) (pile ?g)"
    by (simp add: rule_defs ex_defs)
  have noten: "card_r (hd ?played) \<noteq> R10" by (simp add: ex_defs)
  have nofour: "\<not> lastFourNon3Same (pile ?g @ ?played)"
    by (simp add: lastFourNon3Same_def ex_defs)
  have fr: "finishRecorded ?room"
    by (simp add: finishRecorded_def isPlayerOut_def ex_defs)
  have k: "?k = Suc (Suc 0)" by (simp add: ex_defs)
  have act: "activeIds ?room = [''A'', ''B'', ''C'']"
    by (simp add: activeIds_def ex_defs)
  have pre: "''A'' \<in> set (activeIds ?room) \<and> distinct (map fst (players ?room))"
    by (simp add: act) (simp add: ex_defs)
  have spec: "(spec_nextActive [''A'', ''B'', ''C''] ^^ Suc (Suc 0)) ''A'' = ''C''"
    by (simp add: spec_nextActive_def)
  from legal_play_advances_turn [OF acc legal noten nofour fr] obtain room' g' ps' where
    r: "playCards ?room ''A'' ?req = (Success False False, room')"
    and g': "game room' = Some g'"
    and p: "pile g' = pile ?g @ ?played"
    and look: "map_of (playersState g') ''A'' = Some ps'"
    and ps': "ps' = (if source ?req = ''hand''
                     then ?ps1\<lparr>hand := hand ?ps1 @ take (3 - length (hand ?ps1)) (deck ?g)\<rparr>
                     else ?ps1)"
    and d: "deck g' = (if source ?req = ''hand'' then drop (3 - length (hand ?ps1)) (deck ?g)
                       else deck ?g)"
    and c: "case nextPlayerId ?room ''A'' ?k of
              None \<Rightarrow> currentPlayerId g' = None
            | Some c \<Rightarrow> \<not> (c = ''A'' \<and> isPlayerOut ps') \<longrightarrow> currentPlayerId g' = Some c"
    and s: "''A'' \<in> set (activeIds ?room) \<and> distinct (map fst (players ?room)) \<longrightarrow>
              nextPlayerId ?room ''A'' ?k = Some ((spec_nextActive (activeIds ?room) ^^ ?k) ''A'')"
    by blast
  from s pre have "nextPlayerId ?room ''A'' ?k = Some ((spec_nextActive (activeIds ?room) ^^ ?k) ''A'')"
    by blast
  then have n: "nextPlayerId ?room ''A'' ?k = Some ''C''"
    unfolding k act spec .
  from c have c': "currentPlayerId g' = Some ''C''" unfolding n by simp
  have ps'_eq: "ps' = exState ''A'' [exCard R4 Clubs ''4c'', exCard R9 Diamonds ''9d''] [] []"
    unfolding ps' by (simp add: ex_defs)
  have p': "pile g' = [exCard R6 Hearts ''6h'', exCard R8 Spades ''8s'']"
    unfolding p by (simp add: ex_defs)
  have d': "deck g' = []" unfolding d by (simp add: ex_defs)
  have spec2: "(spec_nextActive [''A'', ''B'', ''C''] ^^ 2) ''A'' = ''C''"
    using spec by (simp add: numeral_2_eq_2)
  from r g' p' look ps'_eq d' c' spec2
  have first: "\<exists>room' g'. playCards ?room ''A'' ?req = (Success False False, room')
        \<and> game room' = Some g'
        \<and> pile g' = [exCard R6 Hearts ''6h'', exCard R8 Spades ''8s'']
        \<and> map_of (playersState g') ''A''
            = Some (exState ''A'' [exCard R4 Clubs ''4c'', exCard R9 Diamonds ''9d''] [] [])
        \<and> deck g' = []
        \<and> currentPlayerId g' = Some ''C''
        \<and> (spec_nextActive [''A'', ''B'', ''C''] ^^ 2) ''A'' = ''C''"
    by blast
  let ?pst2 = "[(''A'', exState ''A'' [exCard R8 Spades ''8s'', exCard R8 Hearts ''8h''] [] []),
                (''B'', exState ''B'' [exCard R5 Spades ''5s''] [] []),
                (''C'', exState ''C'' [exCard R6 Spades ''6s''] [] [])]"
  let ?room2 = "exRoom ?pst2 [] []"
  let ?g2 = "exGame ?pst2 [] []"
  let ?played2 = "[exCard R8 Spades ''8s'', exCard R8 Hearts ''8h'']"
  let ?req2 = "exPlay [''8s'', ''8h'']"
  let ?k2 = "1 + length (filter (\<lambda>c. card_r c = R8) ?played2)"
  have acc2: "accepted ?room2 ''A'' ?req2 ?g2
                (exState ''A'' [exCard R8 Spades ''8s'', exCard R8 Hearts ''8h''] [] [])
                ?played2 (exState ''A'' [] [] [])"
    by (simp add: handler_defs ex_defs)
  have legal2: "canPlayOnPile (card_r (hd ?played2)) (pile ?g2)"
    by (simp add: rule_defs ex_defs)
  have noten2: "card_r (hd ?played2) \<noteq> R10" by (simp add: ex_defs)
  have nofour2: "\<not> lastFourNon3Same (pile ?g2 @ ?played2)"
    by (simp add: lastFourNon3Same_def ex_defs)
  have fr2: "finishRecorded ?room2"
    by (simp add: finishRecorded_def isPlayerOut_def ex_defs)
  have k2: "?k2 = Suc (Suc (Suc 0))" by (simp add: ex_defs)
  have n2: "nextPlayerId ?room2 ''A'' ?k2 = Some ''A''"
    unfolding k2 by (simp add: nextPlayerId_def activeIds_def ex_defs)
  from legal_play_advances_turn [OF acc2 legal2 noten2 nofour2 fr2] obtain room2 g2 ps2 where
    r2: "playCards ?room2 ''A'' ?req2 = (Success False False, room2)"
    and g2: "game room2 = Some g2"
    and ps2: "ps2 = (if source ?req2 = ''hand''
                     then (exState ''A'' [] [] [])\<lparr>hand := hand (exState ''A'' [] [] [])
                            @ take (3 - length (hand (exState ''A'' [] [] []))) (deck ?g2)\<rparr>
                     else exState ''A'' [] [] [])"
    and w2: "nextPlayerId ?room2 ''A'' ?k2 = Some ''A'' \<and> isPlayerOut ps2 \<longrightarrow>
                 ''A'' \<in> set (finished g2) \<and> currentPlayerId g2 \<noteq> Some ''A''
                 \<and> (\<forall>c. currentPlayerId g2 = Some c \<longrightarrow> c \<in> fst ` set (players ?room2))"
    by blast
  have out2: "isPlayerOut ps2" unfolding ps2 by (simp add: isPlayerOut_def ex_defs)
  with w2 n2 have in2: "''A'' \<in> set (finished g2)" and ne2: "currentPlayerId g2 \<noteq> Some ''A''"
    and mem: "\<forall>c. currentPlayerId g2 = Some c \<longrightarrow> c \<in> fst ` set (players ?room2)"
    by blast+
  have "fst ` set (players ?room2) = {''A'', ''B'', ''C''}" by (simp add: ex_defs)
  with mem ne2 have who: "currentPlayerId g2 = Some ''B'' \<or> currentPlayerId g2 = Some ''C''
            \<or> currentPlayerId g2 = None"
    by (cases "currentPlayerId g2") auto
  from r2 g2 in2 ne2 who
  have second: "\<exists>room' g'. playCards ?room2 ''A'' ?req2 = (Success False False, room')
        \<and> game room' = Some g'
        \<and> ''A'' \<in> set (finished g')
        \<and> currentPlayerId g' \<noteq> Some ''A''
        \<and> (currentPlayerId g' = Some ''B'' \<or> currentPlayerId g' = Some ''C''
            \<or> currentPlayerId g' = None)"
    by blast
  from acc fr first second show ?thesis by blast
qed

section \<open>Finish, win and loss\<close>

text \<open>
  C6. The recomputation records every newly finished player in discovery order and ends
  the game with winner and loser as claimed, but a finished current player does not hand
  the turn to the next active player in seat order: the turn goes to the second active
  player of the room. Three players A, B, C with an empty deck; A's only card is a 10.
  A plays it; the pile burns, A keeps the turn and is recorded as finished; the next
  active player after A is B, yet \<open>currentPlayerId\<close> becomes C.
\<close>

theorem finished_player_turn_skips_seat:
  "ensureFinishAndMaybeEnd
     \<lparr>code = ''ROOM'', hostSocketId = Some ''A'',
      players = [(''A'', ''A''), (''B'', ''B''), (''C'', ''C'')], phase = Playing,
      game = Some \<lparr>deck = [], pile = [], burned = [exCard R10 Spades ''10s''],
                    currentPlayerId = Some ''A'',
                    playersState = [(''A'', exState ''A'' [] [] []),
                                    (''B'', exState ''B'' [exCard R5 Spades ''5s''] [] []),
                                    (''C'', exState ''C'' [exCard R6 Spades ''6s''] [] [])],
                    finished = [], winnerId = None, loserId = None\<rparr>\<rparr>
   = \<lparr>code = ''ROOM'', hostSocketId = Some ''A'',
      players = [(''A'', ''A''), (''B'', ''B''), (''C'', ''C'')], phase = Playing,
      game = Some \<lparr>deck = [], pile = [], burned = [exCard R10 Spades ''10s''],
                    currentPlayerId = Some ''C'',
                    playersState = [(''A'', exState ''A'' [] [] []),
                                    (''B'', exState ''B'' [exCard R5 Spades ''5s''] [] []),
                                    (''C'', exState ''C'' [exCard R6 Spades ''6s''] [] [])],
                    finished = [''A''], winnerId = None, loserId = None\<rparr>\<rparr>
   \<and> playCards
       (exRoom [(''A'', exState ''A'' [exCard R10 Spades ''10s''] [] []),
                (''B'', exState ''B'' [exCard R5 Spades ''5s''] [] []),
                (''C'', exState ''C'' [exCard R6 Spades ''6s''] [] [])] [] [])
       ''A'' (exPlay [''10s''])
     = (Success False True,
        \<lparr>code = ''ROOM'', hostSocketId = Some ''A'',
         players = [(''A'', ''A''), (''B'', ''B''), (''C'', ''C'')], phase = Playing,
         game = Some \<lparr>deck = [], pile = [], burned = [exCard R10 Spades ''10s''],
                       currentPlayerId = Some ''C'',
                       playersState = [(''A'', exState ''A'' [] [] []),
                                       (''B'', exState ''B'' [exCard R5 Spades ''5s''] [] []),
                                       (''C'', exState ''C'' [exCard R6 Spades ''6s''] [] [])],
                       finished = [''A''], winnerId = None, loserId = None\<rparr>\<rparr>)"
proof -
  have a: "ensureFinishAndMaybeEnd
     \<lparr>code = ''ROOM'', hostSocketId = Some ''A'',
      players = [(''A'', ''A''), (''B'', ''B''), (''C'', ''C'')], phase = Playing,
      game = Some \<lparr>deck = [], pile = [], burned = [exCard R10 Spades ''10s''],
                    currentPlayerId = Some ''A'',
                    playersState = [(''A'', exState ''A'' [] [] []),
                                    (''B'', exState ''B'' [exCard R5 Spades ''5s''] [] []),
                                    (''C'', exState ''C'' [exCard R6 Spades ''6s''] [] [])],
                    finished = [], winnerId = None, loserId = None\<rparr>\<rparr>
   = \<lparr>code = ''ROOM'', hostSocketId = Some ''A'',
      players = [(''A'', ''A''), (''B'', ''B''), (''C'', ''C'')], phase = Playing,
      game = Some \<lparr>deck = [], pile = [], burned = [exCard R10 Spades ''10s''],
                    currentPlayerId = Some ''C'',
                    playersState = [(''A'', exState ''A'' [] [] []),
                                    (''B'', exState ''B'' [exCard R5 Spades ''5s''] [] []),
                                    (''C'', exState ''C'' [exCard R6 Spades ''6s''] [] [])],
                    finished = [''A''], winnerId = None, loserId = None\<rparr>\<rparr>"
    by (simp add: ensureFinishAndMaybeEnd_def nextPlayerId_def activeIds_def isPlayerOut_def
          Let_def ex_defs)
  have b: "playCards
       (exRoom [(''A'', exState ''A'' [exCard R10 Spades ''10s''] [] []),
                (''B'', exState ''B'' [exCard R5 Spades ''5s''] [] []),
                (''C'', exState ''C'' [exCard R6 Spades ''6s''] [] [])] [] [])
       ''A'' (exPlay [''10s''])
     = (Success False True,
        \<lparr>code = ''ROOM'', hostSocketId = Some ''A'',
         players = [(''A'', ''A''), (''B'', ''B''), (''C'', ''C'')], phase = Playing,
         game = Some \<lparr>deck = [], pile = [], burned = [exCard R10 Spades ''10s''],
                       currentPlayerId = Some ''C'',
                       playersState = [(''A'', exState ''A'' [] [] []),
                                       (''B'', exState ''B'' [exCard R5 Spades ''5s''] [] []),
                                       (''C'', exState ''C'' [exCard R6 Spades ''6s''] [] [])],
                       finished = [''A''], winnerId = None, loserId = None\<rparr>\<rparr>)"
    by (simp add: exec_defs ex_defs)
  from a b show ?thesis by (rule conjI)
qed

section \<open>Locking in the face-up cards\<close>

lemma setFaceUp_success_iff:
  assumes "game room = Some g" and "map_of (playersState g) sid = Some you"
  shows "fst (setFaceUp room sid ids) = Success False False \<longleftrightarrow>
           stage you = ChooseFaceUp \<and> length ids = 3 \<and> set ids \<subseteq> card_id ` set (hand you)"
  using assms by (auto simp: setFaceUp_def Let_def list_all_iff)

lemma setFaceUp_reply: 
  "fst (setFaceUp room sid ids) = Success False False \<or> (\<exists>e. fst (setFaceUp room sid ids) = Failure e)"
  by (auto simp: setFaceUp_def Let_def split: option.splits)

lemma chosen_length:
  assumes d: "distinct (map f xs)" and di: "distinct ids" and sub: "set ids \<subseteq> f ` set xs"
  shows "length (filter (\<lambda>x. f x \<in> set ids) xs) = length ids"
proof -
  have "length (filter (\<lambda>x. f x \<in> set ids) xs) = length (filter (\<lambda>y. y \<in> set ids) (map f xs))"
    by (simp add: filter_map comp_def)
  also have "\<dots> = card ({y. y \<in> set ids} \<inter> set (map f xs))"
    using d by (rule distinct_length_filter)
  also have "{y. y \<in> set ids} \<inter> set (map f xs) = set ids" using sub by auto
  also have "card (set ids) = length ids" using di by (rule distinct_card)
  finally show ?thesis .
qed

lemma allReady_update:
  assumes d: "distinct (map fst pst)" and look: "map_of pst sid = Some you"
    and r: "stage you1 = Ready"
  shows "list_all (\<lambda>kp. stage (snd kp) = Ready) (AList.update sid you1 pst)
           \<longleftrightarrow> (\<forall>kp \<in> set pst. fst kp \<noteq> sid \<longrightarrow> stage (snd kp) = Ready)"
  using d look
proof (induction pst)
  case Nil
  then show ?case by simp
next
  case (Cons p pst)
  show ?case
  proof (cases "fst p = sid")
    case True
    with Cons.prems have "sid \<notin> fst ` set pst" by auto
    then have "\<forall>kp \<in> set pst. fst kp \<noteq> sid" by (auto simp: image_iff)
    with True r show ?thesis by (auto simp: list_all_iff)
  next
    case False
    with Cons show ?thesis by auto
  qed
qed

lemma map_of_map_snd:
  "map_of (map (\<lambda>kp. (fst kp, f (snd kp))) pst) k = map_option f (map_of pst k)"
  by (induction pst) auto

lemma setFaceUp_success:
  assumes g: "game room = Some g" and you: "map_of (playersState g) sid = Some you"
    and wf: "distinct (map fst (playersState g))"
    and ok: "stage you = ChooseFaceUp" "length ids = 3" "set ids \<subseteq> card_id ` set (hand you)"
  shows "\<exists>room' g'. setFaceUp room sid ids = (Success False False, room')
           \<and> game room' = Some g'
           \<and> map_of (playersState g') sid =
               Some (you\<lparr>faceUp := filter (\<lambda>c. card_id c \<in> set ids) (hand you),
                         hand := filter (\<lambda>c. card_id c \<notin> set ids) (hand you),
                         stage := (if \<forall>kp \<in> set (playersState g). fst kp \<noteq> sid \<longrightarrow> stage (snd kp) = Ready
                                   then StagePlaying else Ready)\<rparr>)
           \<and> phase room' =
               (if \<forall>kp \<in> set (playersState g). fst kp \<noteq> sid \<longrightarrow> stage (snd kp) = Ready
                then Playing else phase room)"
proof -
  let ?you1 = "you\<lparr>faceUp := filter (\<lambda>c. card_id c \<in> set ids) (hand you),
                   hand := filter (\<lambda>c. card_id c \<notin> set ids) (hand you), stage := Ready\<rparr>"
  have r: "stage ?you1 = Ready" by simp
  note all = allReady_update [OF wf you r]
  from ok have sel: "list_all (\<lambda>i. i \<in> set (map card_id (hand you))) ids"
    by (auto simp: list_all_iff)
  show ?thesis
  proof (cases "\<forall>kp \<in> set (playersState g). fst kp \<noteq> sid \<longrightarrow> stage (snd kp) = Ready")
    case True
    with g you ok sel all show ?thesis
      by (simp add: setFaceUp_def Let_def map_of_map_snd update_conv')
  next
    case False
    then have "\<not> list_all (\<lambda>kp. stage (snd kp) = Ready) (AList.update sid ?you1 (playersState g))"
      using all by blast
    with g you ok sel show ?thesis
      unfolding if_not_P [OF False]
      by (simp add: setFaceUp_def Let_def update_conv')
  qed
qed

lemma setFaceUp_success_state:
  assumes g: "game room = Some g" and you: "map_of (playersState g) sid = Some you"
    and wf: "distinct (map fst (playersState g))"
    and ok: "stage you = ChooseFaceUp" "length ids = 3" "set ids \<subseteq> card_id ` set (hand you)"
  shows "\<exists>room' g'. setFaceUp room sid ids = (Success False False, room')
           \<and> game room' = Some g'
           \<and> phase room' =
               (if \<forall>kp \<in> set (playersState g). fst kp \<noteq> sid \<longrightarrow> stage (snd kp) = Ready
                then Playing else phase room)
           \<and> playersState g' =
               (if \<forall>kp \<in> set (playersState g). fst kp \<noteq> sid \<longrightarrow> stage (snd kp) = Ready
                then map (\<lambda>kp. (fst kp, (snd kp)\<lparr>stage := StagePlaying\<rparr>))
                       (AList.update sid
                          (you\<lparr>faceUp := filter (\<lambda>c. card_id c \<in> set ids) (hand you),
                                hand := filter (\<lambda>c. card_id c \<notin> set ids) (hand you),
                                stage := Ready\<rparr>) (playersState g))
                else AList.update sid
                       (you\<lparr>faceUp := filter (\<lambda>c. card_id c \<in> set ids) (hand you),
                             hand := filter (\<lambda>c. card_id c \<notin> set ids) (hand you),
                             stage := Ready\<rparr>) (playersState g))"
proof -
  let ?you1 = "you\<lparr>faceUp := filter (\<lambda>c. card_id c \<in> set ids) (hand you),
                   hand := filter (\<lambda>c. card_id c \<notin> set ids) (hand you), stage := Ready\<rparr>"
  have r: "stage ?you1 = Ready" by simp
  note all = allReady_update [OF wf you r]
  from ok have sel: "list_all (\<lambda>i. i \<in> set (map card_id (hand you))) ids"
    by (auto simp: list_all_iff)
  show ?thesis
  proof (cases "\<forall>kp \<in> set (playersState g). fst kp \<noteq> sid \<longrightarrow> stage (snd kp) = Ready")
    case True
    then have "list_all (\<lambda>kp. stage (snd kp) = Ready) (AList.update sid ?you1 (playersState g))"
      using all by blast
    with g you ok sel show ?thesis
      unfolding if_P [OF True]
      by (simp add: setFaceUp_def Let_def)
  next
    case False
    then have "\<not> list_all (\<lambda>kp. stage (snd kp) = Ready) (AList.update sid ?you1 (playersState g))"
      using all by blast
    with g you ok sel show ?thesis
      unfolding if_not_P [OF False]
      by (simp add: setFaceUp_def Let_def)
  qed
qed

text \<open>
  C8, as the code has it. For a requester with a state in a started game and a request
  whose ids are pairwise distinct, \<^verbatim>\<open>setup:setFaceUp\<close> succeeds exactly when the
  requester's stage is chooseFaceUp and \<^verbatim>\<open>chosenCardIds\<close> holds exactly three ids, all
  of cards in the requester's hand; otherwise it fails and leaves the room as it was.
  After such a successful request the face-up zone holds exactly the three chosen cards,
  the hand holds the other cards (three when it held six) and the face-down zone is
  untouched. The requester's stage is then ready, the phase and the other players stay as
  they were, unless every other player is ready too: then the room enters the playing
  phase and the stage of every player, the requester's included, is playing.
\<close>

theorem lock_face_up:
  assumes g: "game room = Some g" and you: "map_of (playersState g) sid = Some you"
    and wf: "distinct (map fst (playersState g))"
    and di: "distinct ids"
  shows "(fst (setFaceUp room sid ids) = Success False False \<longleftrightarrow>
            stage you = ChooseFaceUp \<and> length ids = 3 \<and> set ids \<subseteq> card_id ` set (hand you))
       \<and> (fst (setFaceUp room sid ids) \<noteq> Success False False \<longrightarrow>
            (\<exists>e. setFaceUp room sid ids = (Failure e, room)))
       \<and> (fst (setFaceUp room sid ids) = Success False False
            \<and> distinct (map card_id (hand you)) \<longrightarrow>
            (\<exists>room' g' you'. setFaceUp room sid ids = (Success False False, room')
               \<and> game room' = Some g'
               \<and> map_of (playersState g') sid = Some you'
               \<and> you' = you\<lparr>faceUp := filter (\<lambda>c. card_id c \<in> set ids) (hand you),
                              hand := filter (\<lambda>c. card_id c \<notin> set ids) (hand you),
                              stage := stage you'\<rparr>
               \<and> length (faceUp you') = 3
               \<and> length (hand you') + 3 = length (hand you)
               \<and> (length (hand you) = 6 \<longrightarrow> length (hand you') = 3)
               \<and> (if \<forall>kp \<in> set (playersState g). fst kp \<noteq> sid \<longrightarrow> stage (snd kp) = Ready
                   then stage you' = StagePlaying
                        \<and> phase room' = Playing
                        \<and> (\<forall>kp \<in> set (playersState g'). stage (snd kp) = StagePlaying)
                        \<and> (\<forall>k. k \<noteq> sid \<longrightarrow>
                              map_of (playersState g') k
                                = map_option (\<lambda>st. st\<lparr>stage := StagePlaying\<rparr>)
                                    (map_of (playersState g) k))
                   else stage you' = Ready
                        \<and> phase room' = phase room
                        \<and> (\<forall>k. k \<noteq> sid \<longrightarrow>
                              map_of (playersState g') k = map_of (playersState g) k))))"
proof -
  let ?others = "\<forall>kp \<in> set (playersState g). fst kp \<noteq> sid \<longrightarrow> stage (snd kp) = Ready"
  let ?chosen = "filter (\<lambda>c. card_id c \<in> set ids) (hand you)"
  let ?rest = "filter (\<lambda>c. card_id c \<notin> set ids) (hand you)"
  let ?you1 = "you\<lparr>faceUp := ?chosen, hand := ?rest, stage := Ready\<rparr>"
  let ?pst1 = "AList.update sid ?you1 (playersState g)"
  have iff: "fst (setFaceUp room sid ids) = Success False False \<longleftrightarrow>
            stage you = ChooseFaceUp \<and> length ids = 3 \<and> set ids \<subseteq> card_id ` set (hand you)"
    by (rule setFaceUp_success_iff [OF g you])
  have fails: "\<exists>e. setFaceUp room sid ids = (Failure e, room)"
    if "fst (setFaceUp room sid ids) \<noteq> Success False False"
  proof -
    from that setFaceUp_reply [of room sid ids]
    obtain e where e: "fst (setFaceUp room sid ids) = Failure e" by blast
    then have "snd (setFaceUp room sid ids) = room" by (rule setFaceUp_failure_unchanged)
    with e have "setFaceUp room sid ids = (Failure e, room)" by (simp add: prod_eq_iff)
    then show ?thesis ..
  qed
  have after: "\<exists>room' g' you'. setFaceUp room sid ids = (Success False False, room')
               \<and> game room' = Some g'
               \<and> map_of (playersState g') sid = Some you'
               \<and> you' = you\<lparr>faceUp := ?chosen, hand := ?rest, stage := stage you'\<rparr>
               \<and> length (faceUp you') = 3
               \<and> length (hand you') + 3 = length (hand you)
               \<and> (length (hand you) = 6 \<longrightarrow> length (hand you') = 3)
               \<and> (if ?others
                   then stage you' = StagePlaying
                        \<and> phase room' = Playing
                        \<and> (\<forall>kp \<in> set (playersState g'). stage (snd kp) = StagePlaying)
                        \<and> (\<forall>k. k \<noteq> sid \<longrightarrow>
                              map_of (playersState g') k
                                = map_option (\<lambda>st. st\<lparr>stage := StagePlaying\<rparr>)
                                    (map_of (playersState g) k))
                   else stage you' = Ready
                        \<and> phase room' = phase room
                        \<and> (\<forall>k. k \<noteq> sid \<longrightarrow>
                              map_of (playersState g') k = map_of (playersState g) k))"
    if s: "fst (setFaceUp room sid ids) = Success False False"
      and dh: "distinct (map card_id (hand you))"
  proof -
    from s iff have ok: "stage you = ChooseFaceUp" "length ids = 3"
        "set ids \<subseteq> card_id ` set (hand you)" by simp_all
    have three: "length ?chosen = 3" using chosen_length [OF dh di ok(3)] ok(2) by simp
    have "length ?chosen + length ?rest = length (hand you)"
      by (rule sum_length_filter_compl)
    with three have rest: "length ?rest + 3 = length (hand you)" by simp
    from setFaceUp_success_state [OF g you wf ok] obtain room' g' where
      r: "setFaceUp room sid ids = (Success False False, room')" and g': "game room' = Some g'"
      and ph: "phase room' = (if ?others then Playing else phase room)"
      and pst: "playersState g' =
                  (if ?others then map (\<lambda>kp. (fst kp, (snd kp)\<lparr>stage := StagePlaying\<rparr>)) ?pst1
                   else ?pst1)"
      by blast
    show ?thesis
    proof (cases ?others)
      case True
      define you' where "you' = you\<lparr>faceUp := ?chosen, hand := ?rest, stage := StagePlaying\<rparr>"
      from True pst have pst': "playersState g' =
          map (\<lambda>kp. (fst kp, (snd kp)\<lparr>stage := StagePlaying\<rparr>)) ?pst1" by simp
      have look: "map_of (playersState g') sid = Some you'"
        by (simp add: pst' map_of_map_snd update_conv' you'_def)
      have shape: "you' = you\<lparr>faceUp := ?chosen, hand := ?rest, stage := stage you'\<rparr>"
        by (simp add: you'_def)
      have l1: "length (faceUp you') = 3" and l2: "length (hand you') + 3 = length (hand you)"
        using three rest by (simp_all add: you'_def)
      from l2 have l3: "length (hand you) = 6 \<longrightarrow> length (hand you') = 3" by simp
      have st: "stage you' = StagePlaying" by (simp add: you'_def)
      from True ph have ph': "phase room' = Playing" by simp
      have all: "\<forall>kp \<in> set (playersState g'). stage (snd kp) = StagePlaying"
        by (auto simp: pst')
      have others: "\<forall>k. k \<noteq> sid \<longrightarrow>
              map_of (playersState g') k
                = map_option (\<lambda>st. st\<lparr>stage := StagePlaying\<rparr>) (map_of (playersState g) k)"
        by (simp add: pst' map_of_map_snd update_conv')
      have last: "if ?others
                   then stage you' = StagePlaying
                        \<and> phase room' = Playing
                        \<and> (\<forall>kp \<in> set (playersState g'). stage (snd kp) = StagePlaying)
                        \<and> (\<forall>k. k \<noteq> sid \<longrightarrow>
                              map_of (playersState g') k
                                = map_option (\<lambda>st. st\<lparr>stage := StagePlaying\<rparr>)
                                    (map_of (playersState g) k))
                   else stage you' = Ready
                        \<and> phase room' = phase room
                        \<and> (\<forall>k. k \<noteq> sid \<longrightarrow>
                              map_of (playersState g') k = map_of (playersState g) k)"
        unfolding if_P [OF True] using st ph' all others by (intro conjI)
      show ?thesis
        by (intro exI conjI) (rule r g' look shape l1 l2 l3 last)+
    next
      case False
      define you' where "you' = ?you1"
      from pst have pst': "playersState g' = ?pst1" unfolding if_not_P [OF False] .
      have look: "map_of (playersState g') sid = Some you'"
        by (simp add: pst' update_conv' you'_def)
      have shape: "you' = you\<lparr>faceUp := ?chosen, hand := ?rest, stage := stage you'\<rparr>"
        by (simp add: you'_def)
      have l1: "length (faceUp you') = 3" and l2: "length (hand you') + 3 = length (hand you)"
        using three rest by (simp_all add: you'_def)
      from l2 have l3: "length (hand you) = 6 \<longrightarrow> length (hand you') = 3" by simp
      have st: "stage you' = Ready" by (simp add: you'_def)
      from ph have ph': "phase room' = phase room" unfolding if_not_P [OF False] .
      have others: "\<forall>k. k \<noteq> sid \<longrightarrow> map_of (playersState g') k = map_of (playersState g) k"
        by (simp add: pst' update_conv')
      have last: "if ?others
                   then stage you' = StagePlaying
                        \<and> phase room' = Playing
                        \<and> (\<forall>kp \<in> set (playersState g'). stage (snd kp) = StagePlaying)
                        \<and> (\<forall>k. k \<noteq> sid \<longrightarrow>
                              map_of (playersState g') k
                                = map_option (\<lambda>st. st\<lparr>stage := StagePlaying\<rparr>)
                                    (map_of (playersState g) k))
                   else stage you' = Ready
                        \<and> phase room' = phase room
                        \<and> (\<forall>k. k \<noteq> sid \<longrightarrow>
                              map_of (playersState g') k = map_of (playersState g) k)"
        unfolding if_not_P [OF False] using st ph' others by (intro conjI)
      show ?thesis
        by (intro exI conjI) (rule r g' look shape l1 l2 l3 last)+
    qed
  qed
  from fails have fails': "fst (setFaceUp room sid ids) \<noteq> Success False False \<longrightarrow>
            (\<exists>e. setFaceUp room sid ids = (Failure e, room))" by blast
  from after have after': "fst (setFaceUp room sid ids) = Success False False
            \<and> distinct (map card_id (hand you)) \<longrightarrow>
            (\<exists>room' g' you'. setFaceUp room sid ids = (Success False False, room')
               \<and> game room' = Some g'
               \<and> map_of (playersState g') sid = Some you'
               \<and> you' = you\<lparr>faceUp := ?chosen, hand := ?rest, stage := stage you'\<rparr>
               \<and> length (faceUp you') = 3
               \<and> length (hand you') + 3 = length (hand you)
               \<and> (length (hand you) = 6 \<longrightarrow> length (hand you') = 3)
               \<and> (if ?others
                   then stage you' = StagePlaying
                        \<and> phase room' = Playing
                        \<and> (\<forall>kp \<in> set (playersState g'). stage (snd kp) = StagePlaying)
                        \<and> (\<forall>k. k \<noteq> sid \<longrightarrow>
                              map_of (playersState g') k
                                = map_option (\<lambda>st. st\<lparr>stage := StagePlaying\<rparr>)
                                    (map_of (playersState g) k))
                   else stage you' = Ready
                        \<and> phase room' = phase room
                        \<and> (\<forall>k. k \<noteq> sid \<longrightarrow>
                              map_of (playersState g') k = map_of (playersState g) k)))"
    by blast
  show ?thesis by (intro conjI) (rule iff fails' after')+
qed

lemmas setup_defs = exChoosingA_def exChoosingB_def exReadyB_def exSetupRoom_def exCard_def

text \<open>
  C8 as stated fails for the last player to lock in: B is ready, A locks in three
  distinct cards of a six-card hand; the request succeeds and A's stage is playing, not
  ready.
\<close>

theorem lock_face_up_stage_counterexample:
  "stage exChoosingA = ChooseFaceUp
   \<and> length (hand exChoosingA) = 6
   \<and> fst (setFaceUp (exSetupRoom exReadyB) ''A'' [''4s'', ''9c'', ''Kh'']) = Success False False
   \<and> map_option (\<lambda>g'. map_option stage (map_of (playersState g') ''A''))
        (game (snd (setFaceUp (exSetupRoom exReadyB) ''A'' [''4s'', ''9c'', ''Kh''])))
      = Some (Some StagePlaying)
   \<and> phase (snd (setFaceUp (exSetupRoom exReadyB) ''A'' [''4s'', ''9c'', ''Kh''])) = Playing"
  by (simp add: setFaceUp_def Let_def setup_defs)

text \<open>
  The handler does not check that the three ids differ: with a repeated id the request
  succeeds and moves two cards only, although the handler's comment expects the hand to
  be left with three.
\<close>

lemma setFaceUp_repeated_id:
  "fst (setFaceUp (exSetupRoom exChoosingB) ''A'' [''4s'', ''4s'', ''9c'']) = Success False False
   \<and> map_option (\<lambda>g'. map_option faceUp (map_of (playersState g') ''A''))
        (game (snd (setFaceUp (exSetupRoom exChoosingB) ''A'' [''4s'', ''4s'', ''9c''])))
      = Some (Some [exCard R4 Spades ''4s'', exCard R9 Clubs ''9c''])
   \<and> map_option (\<lambda>g'. map_option (\<lambda>st. length (hand st)) (map_of (playersState g') ''A''))
        (game (snd (setFaceUp (exSetupRoom exChoosingB) ''A'' [''4s'', ''4s'', ''9c''])))
      = Some (Some 4)"
  by (simp add: setFaceUp_def Let_def setup_defs)

theorem lock_face_up_witness:
  "game (exSetupRoom exChoosingB) \<noteq> None
   \<and> (\<exists>room' g' you'.
        setFaceUp (exSetupRoom exChoosingB) ''A'' [''4s'', ''9c'', ''Kh''] = (Success False False, room')
        \<and> game room' = Some g'
        \<and> map_of (playersState g') ''A'' = Some you'
        \<and> faceUp you' = [exCard R4 Spades ''4s'', exCard R9 Clubs ''9c'', exCard RK Hearts ''Kh'']
        \<and> hand you' = [exCard R2 Diamonds ''2d'', exCard R7 Spades ''7s'', exCard RJ Clubs ''Jc'']
        \<and> length (faceUp you') = 3
        \<and> length (hand you') = 3
        \<and> stage you' = Ready
        \<and> phase room' = Setup
        \<and> map_of (playersState g') ''B'' = Some exChoosingB)
   \<and> (\<exists>room' g' you'.
        setFaceUp (exSetupRoom exReadyB) ''A'' [''4s'', ''9c'', ''Kh''] = (Success False False, room')
        \<and> game room' = Some g'
        \<and> map_of (playersState g') ''A'' = Some you'
        \<and> length (faceUp you') = 3
        \<and> length (hand you') = 3
        \<and> stage you' = StagePlaying
        \<and> phase room' = Playing
        \<and> map_of (playersState g') ''B'' = Some (exReadyB\<lparr>stage := StagePlaying\<rparr>))
   \<and> (\<exists>e. setFaceUp (exSetupRoom exChoosingB) ''A'' [''4s'', ''9c'']
            = (Failure e, exSetupRoom exChoosingB))"
proof -
  let ?ids = "[''4s'', ''9c'', ''Kh'']"
  let ?chosen = "[exCard R4 Spades ''4s'', exCard R9 Clubs ''9c'', exCard RK Hearts ''Kh'']"
  let ?rest = "[exCard R2 Diamonds ''2d'', exCard R7 Spades ''7s'', exCard RJ Clubs ''Jc'']"
  have di: "distinct ?ids" by simp
  have dh: "distinct (map card_id (hand exChoosingA))" by (simp add: exChoosingA_def exCard_def)
  have six: "length (hand exChoosingA) = 6" by (simp add: exChoosingA_def)
  have chosen: "filter (\<lambda>c. card_id c \<in> set ?ids) (hand exChoosingA) = ?chosen"
    by (simp add: exChoosingA_def exCard_def)
  have rest: "filter (\<lambda>c. card_id c \<notin> set ?ids) (hand exChoosingA) = ?rest"
    by (simp add: exChoosingA_def exCard_def)
  have part: "\<exists>room' g' you'.
        setFaceUp (exSetupRoom b) ''A'' ?ids = (Success False False, room')
        \<and> game room' = Some g'
        \<and> map_of (playersState g') ''A'' = Some you'
        \<and> faceUp you' = ?chosen \<and> hand you' = ?rest
        \<and> length (faceUp you') = 3
        \<and> length (hand you') = 3
        \<and> stage you' = (if stage b = Ready then StagePlaying else Ready)
        \<and> phase room' = (if stage b = Ready then Playing else Setup)
        \<and> map_of (playersState g') ''B''
            = Some (if stage b = Ready then b\<lparr>stage := StagePlaying\<rparr> else b)"
    for b
  proof -
    let ?room = "exSetupRoom b"
    obtain g where g: "game ?room = Some g"
      and pst: "playersState g = [(''A'', exChoosingA), (''B'', b)]"
      by (simp add: exSetupRoom_def)
    have you: "map_of (playersState g) ''A'' = Some exChoosingA" by (simp add: pst)
    have wf: "distinct (map fst (playersState g))" by (simp add: pst)
    have ph: "phase ?room = Setup" by (simp add: exSetupRoom_def)
    have lookB: "map_of (playersState g) ''B'' = Some b" by (simp add: pst)
    have others: "(\<forall>kp \<in> set (playersState g). fst kp \<noteq> ''A'' \<longrightarrow> stage (snd kp) = Ready)
                    \<longleftrightarrow> stage b = Ready"
      by (simp add: pst)
    have ok: "fst (setFaceUp ?room ''A'' ?ids) = Success False False"
      by (simp add: setFaceUp_def Let_def exSetupRoom_def exChoosingA_def exCard_def)
    from lock_face_up [OF g you wf di] ok dh obtain room' g' you' where
      r: "setFaceUp ?room ''A'' ?ids = (Success False False, room')"
      and g': "game room' = Some g'"
      and look: "map_of (playersState g') ''A'' = Some you'"
      and shape: "you' = exChoosingA\<lparr>faceUp := filter (\<lambda>c. card_id c \<in> set ?ids) (hand exChoosingA),
                        hand := filter (\<lambda>c. card_id c \<notin> set ?ids) (hand exChoosingA),
                        stage := stage you'\<rparr>"
      and l1: "length (faceUp you') = 3"
      and l3: "length (hand exChoosingA) = 6 \<longrightarrow> length (hand you') = 3"
      and last: "if \<forall>kp \<in> set (playersState g). fst kp \<noteq> ''A'' \<longrightarrow> stage (snd kp) = Ready
                 then stage you' = StagePlaying
                      \<and> phase room' = Playing
                      \<and> (\<forall>kp \<in> set (playersState g'). stage (snd kp) = StagePlaying)
                      \<and> (\<forall>k. k \<noteq> ''A'' \<longrightarrow>
                            map_of (playersState g') k
                              = map_option (\<lambda>st. st\<lparr>stage := StagePlaying\<rparr>)
                                  (map_of (playersState g) k))
                 else stage you' = Ready
                      \<and> phase room' = phase ?room
                      \<and> (\<forall>k. k \<noteq> ''A'' \<longrightarrow>
                            map_of (playersState g') k = map_of (playersState g) k)"
      by blast
    from arg_cong [OF shape, of faceUp] chosen have f: "faceUp you' = ?chosen" by simp
    from arg_cong [OF shape, of hand] rest have h: "hand you' = ?rest" by simp
    from l3 six have l3': "length (hand you') = 3" by simp
    have ne: "''B'' \<noteq> ''A''" by simp
    from last have st: "stage you' = (if stage b = Ready then StagePlaying else Ready)"
      and ph': "phase room' = (if stage b = Ready then Playing else Setup)"
      and b': "map_of (playersState g') ''B''
            = Some (if stage b = Ready then b\<lparr>stage := StagePlaying\<rparr> else b)"
      unfolding others using ne lookB ph by (auto split: if_splits)
    show ?thesis
      by (intro exI conjI) (rule r g' look f h l1 l3' st ph' b')+
  qed
  have sB: "stage exChoosingB \<noteq> Ready" "stage exReadyB = Ready"
    by (simp_all add: exChoosingB_def exReadyB_def)
  from part [of exChoosingB] sB(1)
  have first: "\<exists>room' g' you'.
        setFaceUp (exSetupRoom exChoosingB) ''A'' ?ids = (Success False False, room')
        \<and> game room' = Some g'
        \<and> map_of (playersState g') ''A'' = Some you'
        \<and> faceUp you' = ?chosen \<and> hand you' = ?rest
        \<and> length (faceUp you') = 3
        \<and> length (hand you') = 3
        \<and> stage you' = Ready
        \<and> phase room' = Setup
        \<and> map_of (playersState g') ''B'' = Some exChoosingB"
    by simp
  from part [of exReadyB] sB(2)
  have second: "\<exists>room' g' you'.
        setFaceUp (exSetupRoom exReadyB) ''A'' ?ids = (Success False False, room')
        \<and> game room' = Some g'
        \<and> map_of (playersState g') ''A'' = Some you'
        \<and> length (faceUp you') = 3
        \<and> length (hand you') = 3
        \<and> stage you' = StagePlaying
        \<and> phase room' = Playing
        \<and> map_of (playersState g') ''B'' = Some (exReadyB\<lparr>stage := StagePlaying\<rparr>)"
    by auto
  obtain g where g: "game (exSetupRoom exChoosingB) = Some g"
    and pst: "playersState g = [(''A'', exChoosingA), (''B'', exChoosingB)]"
    by (simp add: exSetupRoom_def)
  have you: "map_of (playersState g) ''A'' = Some exChoosingA" by (simp add: pst)
  have wf: "distinct (map fst (playersState g))" by (simp add: pst)
  have "fst (setFaceUp (exSetupRoom exChoosingB) ''A'' [''4s'', ''9c'']) \<noteq> Success False False"
    by (simp add: setFaceUp_def Let_def setup_defs)
  with lock_face_up [OF g you wf, of "[''4s'', ''9c'']"]
  have fail: "\<exists>e. setFaceUp (exSetupRoom exChoosingB) ''A'' [''4s'', ''9c'']
                = (Failure e, exSetupRoom exChoosingB)" by simp
  from g have "game (exSetupRoom exChoosingB) \<noteq> None" by simp
  with first second fail show ?thesis by (intro conjI)
qed

section \<open>Card conservation\<close>

lemma sum_update_present:
  fixes f :: "'v \<Rightarrow> 'a multiset"
  assumes "map_of pst k = Some v"
  shows "sum_list (map (\<lambda>kp. f (snd kp)) (AList.update k v' pst)) + f v
           = sum_list (map (\<lambda>kp. f (snd kp)) pst) + f v'"
  using assms
proof (induction pst)
  case Nil
  then show ?case by simp
next
  case (Cons p pst)
  show ?case
  proof (cases "fst p = k")
    case True
    with Cons.prems have "snd p = v" by simp
    with True show ?thesis by (simp add: ac_simps)
  next
    case False
    with Cons.prems have "map_of pst k = Some v" by simp
    from Cons.IH [OF this] False show ?thesis by (simp add: ac_simps)
  qed
qed

lemma sum_update_absent:
  fixes f :: "'v \<Rightarrow> 'a multiset"
  assumes "k \<notin> fst ` set pst"
  shows "sum_list (map (\<lambda>kp. f (snd kp)) (AList.update k v' pst))
           = sum_list (map (\<lambda>kp. f (snd kp)) pst) + f v'"
  using assms by (induction pst) (auto simp: ac_simps)

lemma selectCards_conserves:
  assumes "selectCards ps req = Inr (played, ps1)"
  shows "psCards ps1 + mset played = psCards ps"
proof (cases "source req = ''faceDown''")
  case True
  with assms obtain idx where idx: "faceDownIndex req = Some idx"
    by (auto simp: selectCards_def split: option.splits)
  from assms True idx have i: "nat idx < length (faceDown ps)"
    and pl: "played = [faceDown ps ! nat idx]"
    and ps1: "ps1 = ps\<lparr>faceDown := take (nat idx) (faceDown ps) @ drop (Suc (nat idx)) (faceDown ps)\<rparr>"
    by (auto simp: selectCards_def split: if_splits)
  have "mset (faceDown ps) =
          mset (take (nat idx) (faceDown ps) @ faceDown ps ! nat idx # drop (Suc (nat idx)) (faceDown ps))"
    using id_take_nth_drop [OF i] by simp
  then show ?thesis by (simp add: psCards_def pl ps1)
next
  case False
  let ?zone = "if source req = ''hand'' then hand ps else faceUp ps"
  let ?P = "\<lambda>c. card_id c \<in> set (cardIds req)"
  from assms False have pl: "played = filter ?P ?zone"
    and ps1: "ps1 = (if source req = ''hand'' then ps\<lparr>hand := filter (\<lambda>c. \<not> ?P c) ?zone\<rparr>
                     else ps\<lparr>faceUp := filter (\<lambda>c. \<not> ?P c) ?zone\<rparr>)"
    by (auto simp: selectCards_def Let_def removeCardsByIds_def comp_def split: if_splits)
  have part: "mset (filter (\<lambda>c. \<not> ?P c) ?zone) + mset (filter ?P ?zone) = mset ?zone"
    by (simp add: add.commute)
  show ?thesis
  proof (cases "source req = ''hand''")
    case True
    with part show ?thesis by (simp add: psCards_def pl ps1 ac_simps)
  next
    case False
    with part show ?thesis by (simp add: psCards_def pl ps1 ac_simps)
  qed
qed

lemma ensureFinish_allCards:
  "roomCardIds (ensureFinishAndMaybeEnd room) = roomCardIds room"
proof (cases "game room")
  case None
  then show ?thesis by (simp add: ensureFinishAndMaybeEnd_def)
next
  case (Some g)
  from ensureFinish_fields [OF Some] obtain g' where
    "game (ensureFinishAndMaybeEnd room) = Some g'" "deck g' = deck g" "pile g' = pile g"
    "burned g' = burned g" "playersState g' = playersState g" by blast
  with Some show ?thesis by (simp add: roomCardIds_def allCards_def)
qed

lemma allCards_after_move:
  assumes look: "map_of (playersState g) sid = Some ps"
    and pst': "playersState g' = AList.update sid ps' (playersState g)"
    and bal: "mset (deck g') + mset (pile g') + mset (burned g') + psCards ps'
                = mset (deck g) + mset (pile g) + mset (burned g) + psCards ps"
  shows "allCards g' = allCards g"
proof -
  let ?s' = "sum_list (map (\<lambda>kp. psCards (snd kp)) (AList.update sid ps' (playersState g)))"
  let ?s = "sum_list (map (\<lambda>kp. psCards (snd kp)) (playersState g))"
  from sum_update_present [OF look, of psCards ps']
  have s: "?s' + psCards ps = ?s + psCards ps'" .
  have "allCards g' + psCards ps = mset (deck g') + mset (pile g') + mset (burned g') + (?s' + psCards ps)"
    by (simp add: allCards_def pst' ac_simps)
  also have "\<dots> = (mset (deck g') + mset (pile g') + mset (burned g') + psCards ps') + ?s"
    by (simp only: s) (simp add: ac_simps)
  also have "\<dots> = (mset (deck g) + mset (pile g) + mset (burned g) + psCards ps) + ?s"
    by (simp only: bal)
  also have "\<dots> = allCards g + psCards ps" by (simp add: allCards_def ac_simps)
  finally show ?thesis by simp
qed

lemma playCards_not_accepted:
  assumes "\<not> (\<exists>g ps played ps1. accepted room sid req g ps played ps1)"
  shows "snd (playCards room sid req) = room"
  using assms
  by (auto simp: playCards_def accepted_def Let_def split: option.splits sum.splits)

lemma selectCards_stage:
  assumes "selectCards ps req = Inr (played, ps1)"
  shows "stage ps1 = stage ps \<and> (faceUp ps = [] \<longrightarrow> faceUp ps1 = [])"
  using assms
  by (auto simp: selectCards_def Let_def removeCardsByIds_def split: option.splits if_splits)

text \<open>
  The shape of every accepted play: the handler writes one new state \<open>ps'\<close> for the
  requester, keeps the cards of the game, and ends with \<open>ensureFinishAndMaybeEnd\<close>.
\<close>

lemma playCards_accepted_shape:
  assumes acc: "accepted room sid req g ps played ps1"
  shows "\<exists>g3 ps'. snd (playCards room sid req) = ensureFinishAndMaybeEnd (room\<lparr>game := Some g3\<rparr>)
           \<and> playersState g3 = AList.update sid ps' (playersState g)
           \<and> stage ps' = stage ps \<and> (faceUp ps = [] \<longrightarrow> faceUp ps' = [])
           \<and> allCards g3 = allCards g"
proof -
  from acc have g: "game room = Some g" and look: "map_of (playersState g) sid = Some ps"
    and sel: "selectCards ps req = Inr (played, ps1)" by (simp_all add: accepted_def)
  from sel have ne: "played \<noteq> []" by (rule selectCards_nonempty)
  from sel have cons: "psCards ps1 + mset played = psCards ps" by (rule selectCards_conserves)
  from sel have st: "stage ps1 = stage ps" and fu: "faceUp ps = [] \<longrightarrow> faceUp ps1 = []"
    using selectCards_stage by blast+
  have draw: "mset (take k d) + mset (drop k d) = mset d" for k and d :: "card list"
    by (metis append_take_drop_id mset_append)
  show ?thesis
  proof (cases "canPlayOnPile (card_r (hd played)) (pile g)")
    case False
    let ?ps2 = "ps1\<lparr>hand := hand ps1 @ played @ pile g\<rparr>"
    let ?g2 = "g\<lparr>playersState := AList.update sid ?ps2 (playersState g), pile := [],
                 currentPlayerId := nextPlayerId room sid 1\<rparr>"
    have "psCards ?ps2 = psCards ps + mset (pile g)"
      using cons by (simp add: psCards_def ac_simps)
    then have "allCards ?g2 = allCards g"
      by (intro allCards_after_move [OF look]) (simp_all add: ac_simps)
    moreover have "snd (playCards room sid req) = ensureFinishAndMaybeEnd (room\<lparr>game := Some ?g2\<rparr>)"
      by (simp add: playCards_accepted [OF acc] resolvePlay_forced [OF ne False g])
    moreover have "playersState ?g2 = AList.update sid ?ps2 (playersState g)" by simp
    moreover have "stage ?ps2 = stage ps \<and> (faceUp ps = [] \<longrightarrow> faceUp ?ps2 = [])"
      using st fu by simp
    ultimately show ?thesis by blast
  next
    case legal: True
    let ?ps' = "if source req = ''hand''
                then ps1\<lparr>hand := hand ps1 @ take (3 - length (hand ps1)) (deck g)\<rparr> else ps1"
    let ?deck' = "if source req = ''hand'' then drop (3 - length (hand ps1)) (deck g) else deck g"
    have bal: "mset ?deck' + psCards ?ps' + mset played = mset (deck g) + psCards ps"
      using cons draw [of "3 - length (hand ps1)" "deck g"]
      by (auto simp: psCards_def ac_simps)
    have st': "stage ?ps' = stage ps \<and> (faceUp ps = [] \<longrightarrow> faceUp ?ps' = [])"
      using st fu by simp
    have "\<exists>g3. snd (playCards room sid req) = ensureFinishAndMaybeEnd (room\<lparr>game := Some g3\<rparr>)
            \<and> playersState g3 = AList.update sid ?ps' (playersState g)
            \<and> allCards g3 = allCards g"
    proof (cases "card_r (hd played) = R10 \<or> lastFourNon3Same (pile g @ played)")
      case True
      from resolvePlay_burn [OF ne legal True, of room sid "source req" ps1] obtain g3 where
        res: "resolvePlay room g sid (source req) played ps1 =
                (Success False True, ensureFinishAndMaybeEnd (room\<lparr>game := Some g3\<rparr>))"
        and f: "playersState g3 = AList.update sid ?ps' (playersState g)"
          "pile g3 = []" "burned g3 = burned g @ pile g @ played" "deck g3 = ?deck'"
        by blast
      have "mset (deck g3) + mset (pile g3) + mset (burned g3) + psCards ?ps'
              = mset (burned g) + mset (pile g) + (mset ?deck' + psCards ?ps' + mset played)"
        unfolding f by (simp add: ac_simps)
      also have "\<dots> = mset (deck g) + mset (pile g) + mset (burned g) + psCards ps"
        unfolding bal by (simp add: ac_simps)
      finally have "allCards g3 = allCards g" by (rule allCards_after_move [OF look f(1)])
      with res f(1) show ?thesis by (auto simp: playCards_accepted [OF acc])
    next
      case False
      then have noten: "card_r (hd played) \<noteq> R10" and nofour: "\<not> lastFourNon3Same (pile g @ played)"
        by simp_all
      from resolvePlay_plain [OF ne legal noten nofour g, of sid "source req" ps1] obtain g3 where
        res: "resolvePlay room g sid (source req) played ps1 =
                (Success False False, ensureFinishAndMaybeEnd (room\<lparr>game := Some g3\<rparr>))"
        and f: "playersState g3 = AList.update sid ?ps' (playersState g)"
          "pile g3 = pile g @ played" "burned g3 = burned g" "deck g3 = ?deck'"
        by blast
      have "mset (deck g3) + mset (pile g3) + mset (burned g3) + psCards ?ps'
              = mset (burned g) + mset (pile g) + (mset ?deck' + psCards ?ps' + mset played)"
        unfolding f by (simp add: ac_simps)
      also have "\<dots> = mset (deck g) + mset (pile g) + mset (burned g) + psCards ps"
        unfolding bal by (simp add: ac_simps)
      finally have "allCards g3 = allCards g" by (rule allCards_after_move [OF look f(1)])
      with res f(1) show ?thesis by (auto simp: playCards_accepted [OF acc])
    qed
    with st' show ?thesis by blast
  qed
qed

lemma playCards_conserves: "roomCardIds (snd (playCards room sid req)) = roomCardIds room"
proof (cases "\<exists>g ps played ps1. accepted room sid req g ps played ps1")
  case False
  then show ?thesis by (simp add: playCards_not_accepted)
next
  case True
  then obtain g ps played ps1 where acc: "accepted room sid req g ps played ps1" by blast
  then have g: "game room = Some g" by (simp add: accepted_def)
  from playCards_accepted_shape [OF acc] obtain g3 where
    r: "snd (playCards room sid req) = ensureFinishAndMaybeEnd (room\<lparr>game := Some g3\<rparr>)"
    and a: "allCards g3 = allCards g" by blast
  have "roomCardIds (snd (playCards room sid req)) = roomCardIds (room\<lparr>game := Some g3\<rparr>)"
    unfolding r by (rule ensureFinish_allCards)
  also have "\<dots> = roomCardIds room" using a by (simp add: roomCardIds_def g)
  finally show ?thesis .
qed

lemma playPickup_conserves: "roomCardIds (snd (playPickup room sid)) = roomCardIds room"
proof (cases "\<exists>g ps. game room = Some g \<and> phase room = Playing \<and> currentPlayerId g = Some sid
                  \<and> map_of (playersState g) sid = Some ps")
  case False
  then have "snd (playPickup room sid) = room"
    by (auto simp: playPickup_def split: option.splits)
  then show ?thesis by simp
next
  case True
  then obtain g ps where g: "game room = Some g" and ph: "phase room = Playing"
    and cur: "currentPlayerId g = Some sid" and look: "map_of (playersState g) sid = Some ps"
    by blast
  let ?g1 = "g\<lparr>playersState := AList.update sid (ps\<lparr>hand := hand ps @ pile g\<rparr>) (playersState g),
               pile := []\<rparr>"
  let ?g2 = "?g1\<lparr>currentPlayerId := nextPlayerId (room\<lparr>game := Some ?g1\<rparr>) sid 1\<rparr>"
  have "psCards (ps\<lparr>hand := hand ps @ pile g\<rparr>) = psCards ps + mset (pile g)"
    by (simp add: psCards_def ac_simps)
  then have a: "allCards ?g2 = allCards g"
    by (intro allCards_after_move [OF look]) (simp_all add: ac_simps)
  have r: "snd (playPickup room sid) = ensureFinishAndMaybeEnd (room\<lparr>game := Some ?g2\<rparr>)"
    using g ph cur look by (simp add: playPickup_def Let_def)
  have "roomCardIds (snd (playPickup room sid)) = roomCardIds (room\<lparr>game := Some ?g2\<rparr>)"
    unfolding r by (rule ensureFinish_allCards)
  also have "\<dots> = roomCardIds room" using a by (simp add: roomCardIds_def g)
  finally show ?thesis .
qed

subsection \<open>Nobody who still chooses holds a face-up card\<close>

lemma list_all_update:
  "list_all P pst \<Longrightarrow> P (k, v) \<Longrightarrow> list_all P (AList.update k v pst)"
  by (induction pst) auto

lemma faceUpUnset_ensureFinish:
  assumes "faceUpUnset room"
  shows "faceUpUnset (ensureFinishAndMaybeEnd room)"
proof (cases "game room")
  case None
  with assms show ?thesis by (simp add: ensureFinishAndMaybeEnd_def)
next
  case (Some g)
  from ensureFinish_fields [OF Some] obtain g' where
    "game (ensureFinishAndMaybeEnd room) = Some g'" "playersState g' = playersState g" by blast
  with assms Some show ?thesis by (simp add: faceUpUnset_def)
qed

lemma faceUpUnset_update:
  assumes fu: "faceUpUnset room" and g: "game room = Some g"
    and look: "map_of (playersState g) sid = Some ps"
    and pst: "playersState g3 = AList.update sid ps' (playersState g)"
    and st: "stage ps' = stage ps" and f: "faceUp ps = [] \<longrightarrow> faceUp ps' = []"
  shows "faceUpUnset (room\<lparr>game := Some g3\<rparr>)"
proof -
  from look have "(sid, ps) \<in> set (playersState g)" by (rule map_of_SomeD)
  with fu g have "stage ps = ChooseFaceUp \<longrightarrow> faceUp ps = []"
    by (auto simp: faceUpUnset_def list_all_iff)
  with st f have "stage ps' = ChooseFaceUp \<longrightarrow> faceUp ps' = []" by simp
  with fu g show ?thesis
    by (simp add: faceUpUnset_def pst list_all_update)
qed

lemma faceUpUnset_playCards:
  assumes fu: "faceUpUnset room"
  shows "faceUpUnset (snd (playCards room sid req))"
proof (cases "\<exists>g ps played ps1. accepted room sid req g ps played ps1")
  case False
  with fu show ?thesis by (simp add: playCards_not_accepted)
next
  case True
  then obtain g ps played ps1 where acc: "accepted room sid req g ps played ps1" by blast
  then have g: "game room = Some g" and look: "map_of (playersState g) sid = Some ps"
    by (simp_all add: accepted_def)
  from playCards_accepted_shape [OF acc] obtain g3 ps' where
    r: "snd (playCards room sid req) = ensureFinishAndMaybeEnd (room\<lparr>game := Some g3\<rparr>)"
    and pst: "playersState g3 = AList.update sid ps' (playersState g)"
    and st: "stage ps' = stage ps" and f: "faceUp ps = [] \<longrightarrow> faceUp ps' = []" by blast
  show ?thesis
    unfolding r by (rule faceUpUnset_ensureFinish [OF faceUpUnset_update [OF fu g look pst st f]])
qed

lemma faceUpUnset_playPickup:
  assumes fu: "faceUpUnset room"
  shows "faceUpUnset (snd (playPickup room sid))"
proof (cases "\<exists>g ps. game room = Some g \<and> phase room = Playing \<and> currentPlayerId g = Some sid
                  \<and> map_of (playersState g) sid = Some ps")
  case False
  then have "snd (playPickup room sid) = room"
    by (auto simp: playPickup_def split: option.splits)
  with fu show ?thesis by simp
next
  case True
  then obtain g ps where g: "game room = Some g" and ph: "phase room = Playing"
    and cur: "currentPlayerId g = Some sid" and look: "map_of (playersState g) sid = Some ps"
    by blast
  let ?ps' = "ps\<lparr>hand := hand ps @ pile g\<rparr>"
  let ?g1 = "g\<lparr>playersState := AList.update sid ?ps' (playersState g), pile := []\<rparr>"
  let ?g2 = "?g1\<lparr>currentPlayerId := nextPlayerId (room\<lparr>game := Some ?g1\<rparr>) sid 1\<rparr>"
  have r: "snd (playPickup room sid) = ensureFinishAndMaybeEnd (room\<lparr>game := Some ?g2\<rparr>)"
    using g ph cur look by (simp add: playPickup_def Let_def)
  have pst: "playersState ?g2 = AList.update sid ?ps' (playersState g)" by simp
  have st: "stage ?ps' = stage ps" and f: "faceUp ps = [] \<longrightarrow> faceUp ?ps' = []" by simp_all
  show ?thesis
    unfolding r by (rule faceUpUnset_ensureFinish [OF faceUpUnset_update [OF fu g look pst st f]])
qed

subsection \<open>Locking in and dealing\<close>

lemma sum_map_stage:
  "sum_list (map (\<lambda>kp. psCards (snd kp)) (map (\<lambda>kp. (fst kp, (snd kp)\<lparr>stage := s\<rparr>)) pst))
     = sum_list (map (\<lambda>kp. psCards (snd kp)) pst)"
  by (induction pst) (simp_all add: psCards_def)

lemma setFaceUp_shape:
  assumes g: "game room = Some g" and ok: "fst (setFaceUp room sid ids) = Success False False"
  shows "\<exists>you pst'. map_of (playersState g) sid = Some you \<and> stage you = ChooseFaceUp
           \<and> snd (setFaceUp room sid ids) =
               room\<lparr>phase := (if list_all (\<lambda>kp. stage (snd kp) = Ready) pst' then Playing else phase room),
                    game := Some (g\<lparr>playersState :=
                      (if list_all (\<lambda>kp. stage (snd kp) = Ready) pst'
                       then map (\<lambda>kp. (fst kp, (snd kp)\<lparr>stage := StagePlaying\<rparr>)) pst'
                       else pst')\<rparr>)\<rparr>
           \<and> pst' = AList.update sid
                      (you\<lparr>faceUp := filter (\<lambda>c. card_id c \<in> set ids) (hand you),
                            hand := filter (\<lambda>c. card_id c \<notin> set ids) (hand you),
                            stage := Ready\<rparr>) (playersState g)"
proof -
  from g ok obtain you where look: "map_of (playersState g) sid = Some you"
    by (cases "map_of (playersState g) sid") (auto simp: setFaceUp_def)
  from ok have iff: "stage you = ChooseFaceUp \<and> length ids = 3
                     \<and> set ids \<subseteq> card_id ` set (hand you)"
    by (simp add: setFaceUp_success_iff [OF g look])
  then have sel: "list_all (\<lambda>i. i \<in> set (map card_id (hand you))) ids"
    by (auto simp: list_all_iff)
  from g look iff sel show ?thesis
    by (simp add: setFaceUp_def Let_def)
qed

lemma setFaceUp_conserves:
  assumes fu: "faceUpUnset room"
  shows "roomCardIds (snd (setFaceUp room sid ids)) = roomCardIds room"
proof (cases "fst (setFaceUp room sid ids) = Success False False")
  case False
  with setFaceUp_reply [of room sid ids] obtain e where "fst (setFaceUp room sid ids) = Failure e"
    by blast
  then show ?thesis by (simp add: setFaceUp_failure_unchanged)
next
  case True
  then obtain g where g: "game room = Some g"
    by (cases "game room") (auto simp: setFaceUp_def)
  let ?P = "\<lambda>c. card_id c \<in> set ids"
  from setFaceUp_shape [OF g True] obtain you pst' where
    look: "map_of (playersState g) sid = Some you" and st: "stage you = ChooseFaceUp"
    and r: "snd (setFaceUp room sid ids) =
               room\<lparr>phase := (if list_all (\<lambda>kp. stage (snd kp) = Ready) pst' then Playing else phase room),
                    game := Some (g\<lparr>playersState :=
                      (if list_all (\<lambda>kp. stage (snd kp) = Ready) pst'
                       then map (\<lambda>kp. (fst kp, (snd kp)\<lparr>stage := StagePlaying\<rparr>)) pst'
                       else pst')\<rparr>)\<rparr>"
    and pst': "pst' = AList.update sid
                 (you\<lparr>faceUp := filter ?P (hand you),
                       hand := filter (\<lambda>c. card_id c \<notin> set ids) (hand you),
                       stage := Ready\<rparr>) (playersState g)"
    by blast
  let ?you1 = "you\<lparr>faceUp := filter ?P (hand you),
                   hand := filter (\<lambda>c. card_id c \<notin> set ids) (hand you), stage := Ready\<rparr>"
  from look have "(sid, you) \<in> set (playersState g)" by (rule map_of_SomeD)
  with fu g st have empty: "faceUp you = []" by (auto simp: faceUpUnset_def list_all_iff)
  have part: "mset (filter ?P (hand you)) + mset (filter (\<lambda>c. \<not> ?P c) (hand you)) = mset (hand you)"
    by simp
  have same: "psCards ?you1 = psCards you"
    using part by (simp add: psCards_def empty ac_simps)
  have a1: "allCards (g\<lparr>playersState := pst'\<rparr>) = allCards g"
    by (rule allCards_after_move [OF look, where ps' = ?you1]) (simp_all add: pst' same)
  have a2: "allCards (g\<lparr>playersState := map (\<lambda>kp. (fst kp, (snd kp)\<lparr>stage := StagePlaying\<rparr>)) pst'\<rparr>)
              = allCards (g\<lparr>playersState := pst'\<rparr>)"
    unfolding allCards_def by (simp add: sum_map_stage del: map_map)
  from a1 a2 show ?thesis
    unfolding r by (simp add: roomCardIds_def g)
qed

lemma faceUpUnset_setFaceUp:
  assumes fu: "faceUpUnset room"
  shows "faceUpUnset (snd (setFaceUp room sid ids))"
proof (cases "fst (setFaceUp room sid ids) = Success False False")
  case False
  with setFaceUp_reply [of room sid ids] obtain e where "fst (setFaceUp room sid ids) = Failure e"
    by blast
  with fu show ?thesis by (simp add: setFaceUp_failure_unchanged)
next
  case True
  then obtain g where g: "game room = Some g"
    by (cases "game room") (auto simp: setFaceUp_def)
  from setFaceUp_shape [OF g True] obtain you pst' where
    r: "snd (setFaceUp room sid ids) =
               room\<lparr>phase := (if list_all (\<lambda>kp. stage (snd kp) = Ready) pst' then Playing else phase room),
                    game := Some (g\<lparr>playersState :=
                      (if list_all (\<lambda>kp. stage (snd kp) = Ready) pst'
                       then map (\<lambda>kp. (fst kp, (snd kp)\<lparr>stage := StagePlaying\<rparr>)) pst'
                       else pst')\<rparr>)\<rparr>"
    and pst': "pst' = AList.update sid
                 (you\<lparr>faceUp := filter (\<lambda>c. card_id c \<in> set ids) (hand you),
                       hand := filter (\<lambda>c. card_id c \<notin> set ids) (hand you),
                       stage := Ready\<rparr>) (playersState g)"
    by blast
  from fu g have "list_all (\<lambda>kp. stage (snd kp) = ChooseFaceUp \<longrightarrow> faceUp (snd kp) = []) pst'"
    unfolding pst' by (intro list_all_update) (simp_all add: faceUpUnset_def)
  then show ?thesis
    unfolding r by (simp add: faceUpUnset_def list_all_iff)
qed

lemma deal_conserves:
  assumes "distinct (map fst ps)" and "fst ` set ps \<inter> fst ` set pst = {}"
    and "list_all (\<lambda>kp. stage (snd kp) = ChooseFaceUp \<longrightarrow> faceUp (snd kp) = []) pst"
  shows "mset (fst (deal ps d pst)) + sum_list (map (\<lambda>kp. psCards (snd kp)) (snd (deal ps d pst)))
           = mset d + sum_list (map (\<lambda>kp. psCards (snd kp)) pst)
         \<and> list_all (\<lambda>kp. stage (snd kp) = ChooseFaceUp \<longrightarrow> faceUp (snd kp) = [])
              (snd (deal ps d pst))"
  using assms
proof (induction ps arbitrary: d pst)
  case Nil
  then show ?case by simp
next
  case (Cons p ps)
  let ?st = "\<lparr>ps_id = fst p, ps_name = snd p, hand = take 6 (drop 3 d), faceUp = [],
              faceDown = take 3 d, stage = ChooseFaceUp\<rparr>"
  let ?pst1 = "AList.update (fst p) ?st pst"
  let ?d1 = "drop 6 (drop 3 d)"
  from Cons.prems have new: "fst p \<notin> fst ` set pst" by auto
  have d1: "distinct (map fst ps)" using Cons.prems by simp
  have d2: "fst ` set ps \<inter> fst ` set ?pst1 = {}"
    using Cons.prems by (auto simp: dom_update)
  have d3: "list_all (\<lambda>kp. stage (snd kp) = ChooseFaceUp \<longrightarrow> faceUp (snd kp) = []) ?pst1"
    using Cons.prems(3) by (intro list_all_update) simp_all
  have split: "mset ?d1 + mset (take 6 (drop 3 d)) + mset (take 3 d) = mset d"
    by (metis add.commute append_take_drop_id mset_append)
  have "mset ?d1 + sum_list (map (\<lambda>kp. psCards (snd kp)) ?pst1)
          = mset ?d1 + (sum_list (map (\<lambda>kp. psCards (snd kp)) pst) + psCards ?st)"
    by (simp only: sum_update_absent [OF new])
  also have "\<dots> = (mset ?d1 + mset (take 6 (drop 3 d)) + mset (take 3 d))
                    + sum_list (map (\<lambda>kp. psCards (snd kp)) pst)"
    by (simp add: psCards_def ac_simps)
  also have "\<dots> = mset d + sum_list (map (\<lambda>kp. psCards (snd kp)) pst)"
    by (simp only: split)
  finally have step: "mset ?d1 + sum_list (map (\<lambda>kp. psCards (snd kp)) ?pst1)
                        = mset d + sum_list (map (\<lambda>kp. psCards (snd kp)) pst)" .
  from Cons.IH [OF d1 d2 d3, of ?d1] step show ?case by simp
qed

lemma gameStart_conserved:
  assumes d: "distinct (map fst (players room))"
    and ok: "fst (gameStart room sid shuffled) = Success False False"
  shows "conserved shuffled (snd (gameStart room sid shuffled))"
proof -
  from deal_conserves [OF d, of "[]" shuffled]
  have sum: "mset (fst (deal (players room) shuffled []))
               + sum_list (map (\<lambda>kp. psCards (snd kp)) (snd (deal (players room) shuffled [])))
             = mset shuffled"
    and fu: "list_all (\<lambda>kp. stage (snd kp) = ChooseFaceUp \<longrightarrow> faceUp (snd kp) = [])
               (snd (deal (players room) shuffled []))"
    by simp_all
  from ok have pre: "hostSocketId room = Some sid" "\<not> length (players room) < 2" "phase room = Lobby"
    by (auto simp: gameStart_def split: if_splits)
  obtain dk pst where dl: "deal (players room) shuffled [] = (dk, pst)" by (cases "deal (players room) shuffled []")
  from sum fu dl have sum': "mset dk + sum_list (map (\<lambda>kp. psCards (snd kp)) pst) = mset shuffled"
    and fu': "list_all (\<lambda>kp. stage (snd kp) = ChooseFaceUp \<longrightarrow> faceUp (snd kp) = []) pst"
    by simp_all
  have "allCards \<lparr>deck = dk, pile = [], burned = [],
                  currentPlayerId = (case players room of [] \<Rightarrow> None | p # _ \<Rightarrow> Some (fst p)),
                  playersState = pst, finished = [], winnerId = None, loserId = None\<rparr> = mset shuffled"
    using sum' by (simp add: allCards_def)
  with pre dl fu' show ?thesis
    by (simp add: conserved_def gameStart_def roomCardIds_def faceUpUnset_def)
qed

text \<open>
  C10. Card conservation. \<^verbatim>\<open>game:start\<close> deals the shuffled deck so that the card ids
  spread over the deck, the pile, the burned pile and every player's hand, face-up and
  face-down zones are exactly those of the shuffled deck (a room never lists a socket id
  twice); and \<^verbatim>\<open>setup:setFaceUp\<close>, \<^verbatim>\<open>play:cards\<close> (legal, burning, forced
  pickup or refused) and \<^verbatim>\<open>play:pickup\<close> each keep that multiset of card ids: no
  card is created, duplicated or lost. \<open>conserved\<close> carries along that a player who has
  not locked in has no face-up card, as the deal leaves it.
\<close>

theorem card_conservation:
  "(distinct (map fst (players room)) \<and> fst (gameStart room sid d) = Success False False \<longrightarrow>
      conserved d (snd (gameStart room sid d)))
   \<and> (conserved d room \<longrightarrow>
        conserved d (snd (setFaceUp room sid ids))
        \<and> conserved d (snd (playCards room sid req))
        \<and> conserved d (snd (playPickup room sid)))
   \<and> (faceUpUnset room \<longrightarrow> roomCardIds (snd (setFaceUp room sid ids)) = roomCardIds room)
   \<and> roomCardIds (snd (playCards room sid req)) = roomCardIds room
   \<and> roomCardIds (snd (playPickup room sid)) = roomCardIds room"
proof -
  have start: "conserved d (snd (gameStart room sid d))"
    if "distinct (map fst (players room))" "fst (gameStart room sid d) = Success False False"
    using that by (rule gameStart_conserved)
  have keep: "conserved d (snd (setFaceUp room sid ids))
        \<and> conserved d (snd (playCards room sid req))
        \<and> conserved d (snd (playPickup room sid))"
    if "conserved d room"
    using that
    by (simp add: conserved_def setFaceUp_conserves playCards_conserves playPickup_conserves
          faceUpUnset_setFaceUp faceUpUnset_playCards faceUpUnset_playPickup)
  from start keep show ?thesis
    by (simp add: setFaceUp_conserves playCards_conserves playPickup_conserves)
qed

theorem card_conservation_witness:
  "distinct (map fst (players exLobby))
   \<and> fst (gameStart exLobby ''A'' exDeck) = Success False False
   \<and> conserved exDeck (snd (gameStart exLobby ''A'' exDeck))
   \<and> conserved exDeck
       (snd (setFaceUp (snd (gameStart exLobby ''A'' exDeck)) ''A'' [''4s'', ''9c'', ''Kh'']))
   \<and> roomCardIds (snd (gameStart exLobby ''A'' exDeck)) = image_mset card_id (mset exDeck)"
proof -
  have d: "distinct (map fst (players exLobby))" by (simp add: exLobby_def)
  have ok: "fst (gameStart exLobby ''A'' exDeck) = Success False False"
    by (simp add: gameStart_def exLobby_def split: prod.splits)
  from card_conservation [where room = exLobby and sid = "''A''" and d = exDeck] d ok
  have c: "conserved exDeck (snd (gameStart exLobby ''A'' exDeck))" by blast
  with card_conservation [where room = "snd (gameStart exLobby ''A'' exDeck)" and sid = "''A''"
      and d = exDeck and ids = "[''4s'', ''9c'', ''Kh'']"]
  have c2: "conserved exDeck
       (snd (setFaceUp (snd (gameStart exLobby ''A'' exDeck)) ''A'' [''4s'', ''9c'', ''Kh'']))"
    by blast
  from c have "roomCardIds (snd (gameStart exLobby ''A'' exDeck)) = image_mset card_id (mset exDeck)"
    by (simp add: conserved_def)
  with d ok c c2 show ?thesis by blast
qed

section \<open>Every card-less player is recorded: an invariant of the game\<close>

text \<open>
  \<open>finishRecorded\<close> holds after the deal when every player receives a card (up to six
  players with a deck of 52), and \<^verbatim>\<open>setup:setFaceUp\<close>, \<^verbatim>\<open>play:cards\<close> and
  \<^verbatim>\<open>play:pickup\<close> preserve it.
\<close>

lemma finishRecorded_playCards:
  assumes "finishRecorded room"
  shows "finishRecorded (snd (playCards room sid req))"
proof (cases "\<exists>g ps played ps1. accepted room sid req g ps played ps1")
  case False
  with assms show ?thesis by (simp add: playCards_not_accepted)
next
  case True
  then obtain g ps played ps1 where acc: "accepted room sid req g ps played ps1" by blast
  from playCards_accepted_shape [OF acc] obtain g3 where
    "snd (playCards room sid req) = ensureFinishAndMaybeEnd (room\<lparr>game := Some g3\<rparr>)" by blast
  then show ?thesis by (simp add: finishRecorded_ensureFinish)
qed

lemma finishRecorded_playPickup:
  assumes "finishRecorded room"
  shows "finishRecorded (snd (playPickup room sid))"
proof (cases "fst (playPickup room sid) = Success False False")
  case True
  then have "\<exists>r. snd (playPickup room sid) = ensureFinishAndMaybeEnd r"
    by (auto simp: playPickup_def Let_def split: option.splits if_splits)
  then show ?thesis by (auto simp: finishRecorded_ensureFinish)
next
  case False
  then have "snd (playPickup room sid) = room"
    by (auto simp: playPickup_def Let_def split: option.splits if_splits)
  with assms show ?thesis by simp
qed

lemma isPlayerOut_stage: "isPlayerOut (st\<lparr>stage := s\<rparr>) = isPlayerOut st"
  by (simp add: isPlayerOut_def)

lemma finishRecorded_setFaceUp:
  assumes fr: "finishRecorded room"
  shows "finishRecorded (snd (setFaceUp room sid ids))"
proof (cases "fst (setFaceUp room sid ids) = Success False False")
  case False
  with setFaceUp_reply [of room sid ids] obtain e where "fst (setFaceUp room sid ids) = Failure e"
    by blast
  with fr show ?thesis by (simp add: setFaceUp_failure_unchanged)
next
  case True
  then obtain g where g: "game room = Some g"
    by (cases "game room") (auto simp: setFaceUp_def)
  let ?P = "\<lambda>c. card_id c \<in> set ids"
  from setFaceUp_shape [OF g True] obtain you pst' where
    look: "map_of (playersState g) sid = Some you"
    and r: "snd (setFaceUp room sid ids) =
               room\<lparr>phase := (if list_all (\<lambda>kp. stage (snd kp) = Ready) pst' then Playing else phase room),
                    game := Some (g\<lparr>playersState :=
                      (if list_all (\<lambda>kp. stage (snd kp) = Ready) pst'
                       then map (\<lambda>kp. (fst kp, (snd kp)\<lparr>stage := StagePlaying\<rparr>)) pst'
                       else pst')\<rparr>)\<rparr>"
    and pst': "pst' = AList.update sid
                 (you\<lparr>faceUp := filter ?P (hand you),
                       hand := filter (\<lambda>c. card_id c \<notin> set ids) (hand you),
                       stage := Ready\<rparr>) (playersState g)"
    by blast
  let ?you1 = "you\<lparr>faceUp := filter ?P (hand you),
                   hand := filter (\<lambda>c. card_id c \<notin> set ids) (hand you), stage := Ready\<rparr>"
  from True have sel: "length ids = 3" "set ids \<subseteq> card_id ` set (hand you)"
    by (simp_all add: setFaceUp_success_iff [OF g look])
  from sel(1) obtain i where "i \<in> set ids" by (cases ids) auto
  with sel(2) obtain c where "c \<in> set (hand you)" "?P c" by auto
  then have "filter ?P (hand you) \<noteq> []" by (auto simp: filter_empty_conv)
  then have notout: "\<not> isPlayerOut ?you1" by (simp add: isPlayerOut_def)
  have rec: "isPlayerOut st \<longrightarrow> fst p \<in> set (finished g)"
    if p: "p \<in> set (players room)" and st: "map_of pst' (fst p) = Some st" for p st
  proof (cases "fst p = sid")
    case True
    with st have "st = ?you1" by (simp add: pst' update_conv')
    with notout show ?thesis by simp
  next
    case False
    with st have "map_of (playersState g) (fst p) = Some st" by (simp add: pst' update_conv')
    with fr g p show ?thesis by (auto simp: finishRecorded_def list_all_iff)
  qed
  show ?thesis
  proof (cases "list_all (\<lambda>kp. stage (snd kp) = Ready) pst'")
    case True
    with rec show ?thesis
      unfolding r
      by (auto simp: finishRecorded_def list_all_iff map_of_map_snd isPlayerOut_stage
               split: option.splits)
  next
    case False
    with rec show ?thesis
      unfolding r by (auto simp: finishRecorded_def list_all_iff split: option.splits)
  qed
qed

lemma deal_holds_cards:
  assumes "9 * length ps < length d + 9"
    and "\<forall>kp \<in> set pst. \<not> isPlayerOut (snd kp)"
  shows "\<forall>kp \<in> set (snd (deal ps d pst)). \<not> isPlayerOut (snd kp)"
  using assms
proof (induction ps arbitrary: d pst)
  case Nil
  then show ?case by simp
next
  case (Cons p ps)
  let ?st = "\<lparr>ps_id = fst p, ps_name = snd p, hand = take 6 (drop 3 d), faceUp = [],
              faceDown = take 3 d, stage = ChooseFaceUp\<rparr>"
  from Cons.prems(1) have "d \<noteq> []" by auto
  then have "\<not> isPlayerOut ?st" by (simp add: isPlayerOut_def)
  with Cons.prems(2) have all: "\<forall>kp \<in> set (AList.update (fst p) ?st pst). \<not> isPlayerOut (snd kp)"
    using list_all_update [of "\<lambda>kp. \<not> isPlayerOut (snd kp)" pst "fst p" ?st]
    by (simp add: list_all_iff)
  from Cons.prems(1) have "9 * length ps < length (drop 6 (drop 3 d)) + 9" by auto
  from Cons.IH [OF this all] show ?case by simp
qed

lemma finishRecorded_gameStart:
  assumes ok: "fst (gameStart room sid shuffled) = Success False False"
    and enough: "9 * length (players room) < length shuffled + 9"
  shows "finishRecorded (snd (gameStart room sid shuffled))"
proof -
  obtain dk pst where dl: "deal (players room) shuffled [] = (dk, pst)"
    by (cases "deal (players room) shuffled []")
  from deal_holds_cards [OF enough, of "[]"] dl
  have hold: "\<forall>kp \<in> set pst. \<not> isPlayerOut (snd kp)" by simp
  have "\<not> isPlayerOut st" if "map_of pst k = Some st" for k st
    using map_of_SomeD [OF that] hold by auto
  with ok dl show ?thesis
    by (auto simp: gameStart_def finishRecorded_def list_all_iff split: if_splits option.splits)
qed

end
